theory Spec2Isabelle
  imports Main
begin

section \<open>Go values, failures and the library boundary\<close>

text \<open>
  The table formatter works on cells of Go type \<open>interface{}\<close>. A cell is modelled by its
  dynamic type and value. \<open>GOther\<close> stands for a value of any other dynamic type (a map, a
  struct, nil, ...), named by a description; the code only ever hands such a value to the
  \<open>fmt\<close> and serializer libraries.

  Go's \<open>int\<close> is modelled as a mathematical integer. Where the code computes with a
  number of the caller's alone, the wrap-around at 64 bits is written out (\<open>int64\<close> below);
  every other sum is a sum of lengths of strings.
\<close>

datatype float64 = Finite bool nat int | PosInf | NegInf | NaN
  \<comment> \<open>\<open>Finite s m e\<close> is the number \<open>(-1)^s * m * 2^e\<close>\<close>

datatype gvalue = GInt int | GString string | GFloat float64 | GBool bool | GOther string

text \<open>
  A failed type assertion, an index out of range and a call through a nil pointer panic; a
  serializer or an unknown output format returns an \<open>error\<close>.
\<close>

datatype failure = TypeAssertionPanic | IndexPanic | NilPanic | ReturnedError string

text \<open>
  Library functions whose result the code only passes on are parameters of the model:
  \<^item> \<open>Sprintf fmt v\<close> is \<open>fmt.Sprintf(fmt, v)\<close> for the directives that are not modelled below;
  \<^item> \<open>time_Parse layout s\<close> is \<open>time.Parse\<close>: the instant parsed, or \<open>None\<close> for an error;
  \<^item> \<open>yaml_Marshal\<close> and \<open>json_MarshalIndent\<close> serialize a list of records, or return an error;
  \<^item> \<open>csv_Write\<close> is the text written by \<open>encoding/csv\<close> for a list of records;
  \<^item> \<open>ToLowerCamel\<close> and \<open>ToLower\<close> are \<open>strcase.ToLowerCamel\<close> and \<open>strings.ToLower\<close>.
\<close>

record golib =
  Sprintf :: "string \<Rightarrow> gvalue \<Rightarrow> string"
  time_Parse :: "string \<Rightarrow> string \<Rightarrow> int option"
  yaml_Marshal :: "(string \<rightharpoonup> gvalue) list \<Rightarrow> failure + string"
  json_MarshalIndent :: "(string \<rightharpoonup> gvalue) list \<Rightarrow> failure + string"
  csv_Write :: "string list list \<Rightarrow> string"
  ToLowerCamel :: "string \<Rightarrow> string"
  ToLower :: "string \<Rightarrow> string"

section \<open>Strings\<close>

definition newline :: char where
  "newline = CHR 0x0A"

definition ESC :: char where
  "ESC = CHR 0x1B"

text \<open>\<open>strings.Split(s, "\n")\<close>: the pieces between line breaks, at least one piece.\<close>

fun Split :: "string \<Rightarrow> string list" where
  "Split [] = [[]]"
| "Split (c # cs) =
     (if c = newline then [] # Split cs
      else (case Split cs of [] \<Rightarrow> [[c]] | l # ls \<Rightarrow> (c # l) # ls))"

text \<open>\<open>strings.ReplaceAll(s, "%", "%%")\<close>.\<close>

fun ReplaceAll_percent :: "string \<Rightarrow> string" where
  "ReplaceAll_percent [] = []"
| "ReplaceAll_percent (c # cs) =
     (if c = CHR ''%'' then CHR ''%'' # CHR ''%'' # ReplaceAll_percent cs
      else c # ReplaceAll_percent cs)"

text \<open>
  \<open>utf8.RuneCountInString\<close>: \<open>rune_size\<close> is the number of bytes the decoder consumes at the
  head of a string, one for a byte that does not start a well-formed sequence.
\<close>

definition byte_in :: "char \<Rightarrow> nat \<Rightarrow> nat \<Rightarrow> bool" where
  "byte_in c lo hi = (lo \<le> of_char c \<and> of_char c \<le> hi)"

fun rune_size :: "string \<Rightarrow> nat" where
  "rune_size [] = 0"
| "rune_size (c # cs) =
     (let b = (of_char c :: nat) in
      if b < 0xC2 then 1
      else if b \<le> 0xDF then
        (case cs of c1 # _ \<Rightarrow> if byte_in c1 0x80 0xBF then 2 else 1 | _ \<Rightarrow> 1)
      else if b \<le> 0xEF then
        (case cs of c1 # c2 # _ \<Rightarrow>
           if byte_in c1 (if b = 0xE0 then 0xA0 else 0x80) (if b = 0xED then 0x9F else 0xBF)
              \<and> byte_in c2 0x80 0xBF then 3 else 1
         | _ \<Rightarrow> 1)
      else if b \<le> 0xF4 then
        (case cs of c1 # c2 # c3 # _ \<Rightarrow>
           if byte_in c1 (if b = 0xF0 then 0x90 else 0x80) (if b = 0xF4 then 0x8F else 0xBF)
              \<and> byte_in c2 0x80 0xBF \<and> byte_in c3 0x80 0xBF then 4 else 1
         | _ \<Rightarrow> 1)
      else 1)"

lemma rune_size_pos: "s \<noteq> [] \<Longrightarrow> 0 < rune_size s"
  by (cases s) (auto simp: Let_def split: list.splits)

function RuneCountInString :: "string \<Rightarrow> nat" where
  "RuneCountInString s = (if s = [] then 0 else Suc (RuneCountInString (drop (rune_size s) s)))"
  by pat_completeness auto
termination
  by (relation "measure length") (auto simp: rune_size_pos)

declare RuneCountInString.simps [simp del]

section \<open>Removing colour sequences\<close>

text \<open>
  \<open>decolorize\<close> deletes every leftmost, non-overlapping match of the regular expression
  \<open>\x1b\[[0-9;]*[mG]\<close>. The star is greedy, and no character of its class is \<open>m\<close> or
  \<open>G\<close>, so a match at ESC exists exactly when the first character after the digits and
  semicolons is \<open>m\<close> or \<open>G\<close>.
\<close>

definition csi_param :: "char \<Rightarrow> bool" where
  "csi_param c = (c \<in> set ''0123456789;'')"

definition csi_match :: "string \<Rightarrow> string option" where
  \<comment> \<open>the text after a match that starts at the head of the argument\<close>
  "csi_match s =
     (case s of
        e # b # r \<Rightarrow>
          (if e = ESC \<and> b = CHR ''['' then
             (case dropWhile csi_param r of
                t # rest \<Rightarrow> if t = CHR ''m'' \<or> t = CHR ''G'' then Some rest else None
              | [] \<Rightarrow> None)
           else None)
      | _ \<Rightarrow> None)"

lemma csi_match_shorter:
  assumes "csi_match s = Some r"
  shows "length r < length s"
proof -
  from assms obtain e b t u where s: "s = e # b # u" and d: "dropWhile csi_param u = t # r"
    by (auto simp: csi_match_def split: list.splits if_splits)
  have "length (dropWhile csi_param u) \<le> length u"
    by (rule length_dropWhile_le)
  with s d show ?thesis by simp
qed

function decolorize :: "string \<Rightarrow> string" where
  "decolorize [] = []"
| "decolorize (c # cs) =
     (case csi_match (c # cs) of
        Some rest \<Rightarrow> decolorize rest
      | None \<Rightarrow> c # decolorize cs)"
  by pat_completeness auto
termination
  by (relation "measure length") (auto dest: csi_match_shorter)

section \<open>The \<open>fmt\<close> directives the code uses\<close>

definition digit_char :: "nat \<Rightarrow> char" where
  "digit_char d = ''0123456789'' ! d"

function show_nat :: "nat \<Rightarrow> string" where
  "show_nat n = (if n < 10 then [digit_char n] else show_nat (n div 10) @ [digit_char (n mod 10)])"
  by pat_completeness auto
termination
  by (relation "measure id") auto

declare show_nat.simps [simp del]

definition show_int :: "int \<Rightarrow> string" where
  \<comment> \<open>\<open>fmt.Sprintf("%d", i)\<close>\<close>
  "show_int i = (if i < 0 then CHR ''-'' # show_nat (nat (- i)) else show_nat (nat i))"

text \<open>
  The code builds its format strings from a width: \<open>fmt.Sprintf("%%-%ds", n)\<close> is
  \<open>%-5s\<close> for \<open>n = 5\<close> and \<open>%--5s\<close> for \<open>n = -5\<close>. A repeated \<open>-\<close> flag is the flag
  once more, so the width is the magnitude of \<open>n\<close>. \<open>fmt\<close> reads the width digit by digit
  and gives up when the number read before a digit is above \<open>10^6\<close>; it then prints
  \<open>%!(NOVERB)\<close> and reports the unused operand.
\<close>

definition fmt_num_ok :: "nat \<Rightarrow> bool" where
  "fmt_num_ok n = (n div 10 \<le> 1000000)"

definition spaces :: "nat \<Rightarrow> string" where
  "spaces n = replicate n CHR '' ''"

definition sprintf_left_s :: "int \<Rightarrow> string \<Rightarrow> string" where
  \<comment> \<open>\<open>fmt.Sprintf(fmt.Sprintf("%%-%ds", n), s)\<close>; padding counts runes\<close>
  "sprintf_left_s n s =
     (if fmt_num_ok (nat \<bar>n\<bar>) then s @ spaces (nat \<bar>n\<bar> - RuneCountInString s)
      else ''%!(NOVERB)%!(EXTRA string='' @ s @ '')'')"

definition sprintf_sp_left_d :: "int \<Rightarrow> int \<Rightarrow> string" where
  \<comment> \<open>\<open>fmt.Sprintf(fmt.Sprintf(" %%-%dd", n), i)\<close>\<close>
  "sprintf_sp_left_d n i =
     (if fmt_num_ok (nat \<bar>n\<bar>)
      then '' '' @ show_int i @ spaces (nat \<bar>n\<bar> - length (show_int i))
      else '' %!(NOVERB)%!(EXTRA int='' @ show_int i @ '')'')"

text \<open>
  Fixed-point formatting of a finite float: the exact value of the float times \<open>10^prec\<close>,
  rounded to the nearest integer (a tie to the even one), with the decimal point put back.
\<close>

definition round_half_even :: "nat \<Rightarrow> nat \<Rightarrow> nat" where
  "round_half_even num den =
     (let q = num div den; r = num mod den
      in if den < 2 * r \<or> (2 * r = den \<and> odd q) then q + 1 else q)"

definition fixed_digits :: "nat \<Rightarrow> nat \<Rightarrow> string" where
  "fixed_digits prec n =
     (let ds = show_nat n; zs = replicate (prec + 1 - length ds) CHR ''0'' @ ds
      in if prec = 0 then zs
         else take (length zs - prec) zs @ ''.'' @ drop (length zs - prec) zs)"

definition FormatFloat_f :: "nat \<Rightarrow> bool \<Rightarrow> nat \<Rightarrow> int \<Rightarrow> string" where
  \<comment> \<open>\<open>strconv.FormatFloat(x, 'f', prec, 64)\<close> for \<open>x = Finite s m e\<close>\<close>
  "FormatFloat_f prec s m e =
     (if s then ''-'' else []) @
     fixed_digits prec
       (if 0 \<le> e then m * 2 ^ nat e * 10 ^ prec
        else round_half_even (m * 10 ^ prec) (2 ^ nat (- e)))"

definition sprintf_prec_f :: "golib \<Rightarrow> int \<Rightarrow> float64 \<Rightarrow> string" where
  \<comment> \<open>\<open>fmt.Sprintf(fmt.Sprintf("%%.%df", p), x)\<close>\<close>
  "sprintf_prec_f L p x =
     (case x of
        Finite s m e \<Rightarrow>
          if 0 \<le> p \<and> fmt_num_ok (nat p) then FormatFloat_f (nat p) s m e
          else Sprintf L (''%.'' @ show_int p @ ''f'') (GFloat x)
      | _ \<Rightarrow> Sprintf L (''%.'' @ show_int p @ ''f'') (GFloat x))"

definition sprintf_sp_left_f :: "golib \<Rightarrow> int \<Rightarrow> int \<Rightarrow> float64 \<Rightarrow> string" where
  \<comment> \<open>\<open>fmt.Sprintf(fmt.Sprintf(" %%-%d.%df", n, p), x)\<close>\<close>
  "sprintf_sp_left_f L n p x =
     (case x of
        Finite s m e \<Rightarrow>
          if fmt_num_ok (nat \<bar>n\<bar>) \<and> 0 \<le> p \<and> fmt_num_ok (nat p)
          then '' '' @ FormatFloat_f (nat p) s m e
                 @ spaces (nat \<bar>n\<bar> - length (FormatFloat_f (nat p) s m e))
          else Sprintf L ('' %-'' @ show_int n @ ''.'' @ show_int p @ ''f'') (GFloat x)
      | _ \<Rightarrow> Sprintf L ('' %-'' @ show_int n @ ''.'' @ show_int p @ ''f'') (GFloat x))"

definition sprintf_sp_left_plus_v :: "golib \<Rightarrow> int \<Rightarrow> gvalue \<Rightarrow> string" where
  \<comment> \<open>\<open>fmt.Sprintf(fmt.Sprintf(" %%-+%dv", n), v)\<close>\<close>
  "sprintf_sp_left_plus_v L n v = Sprintf L ('' %-+'' @ show_int n @ ''v'') v"

definition sprintf_v :: "golib \<Rightarrow> gvalue \<Rightarrow> string" where
  \<comment> \<open>\<open>fmt.Sprintf("%v", v)\<close>\<close>
  "sprintf_v L v = Sprintf L ''%v'' v"

section \<open>Schema and table\<close>

definition TypeInt :: int where "TypeInt = 0"

definition TypeString :: int where "TypeString = 1"

definition TypeFloat :: int where "TypeFloat = 2"

definition TypeDateTime :: int where "TypeDateTime = 3"

definition TypeInterface :: int where "TypeInterface = 4"

definition TypeBool :: int where "TypeBool = 5"

record SchemaField =
  FieldName :: string
  FieldType :: int
  FieldSize :: int
  FieldPrecision :: int
  FieldFormat :: string

record Table =
  Data :: "gvalue list list"
  Schema :: "SchemaField list"

text \<open>
  \<open>DefaultDelimiter\<close>, \<open>DefaultTimeFormat\<close> and \<open>DefaultFoldAtLength\<close> are package
  variables; the model fixes them at their initial values.
\<close>

definition DefaultDelimiter :: string where
  "DefaultDelimiter = ''|''"

definition DefaultTimeFormat :: string where
  "DefaultTimeFormat = ''2006-01-02T15:04:05Z''"

definition DefaultFoldAtLength :: int where
  "DefaultFoldAtLength = 300"

section \<open>Rendering one row\<close>

text \<open>
  Two results are computed from a width of the schema alone, \<open>desired_len - current_len\<close>
  in \<open>pad\<close> and \<open>FieldSize + 1\<close> in \<open>getTableDelimiter\<close>: their wrap-around at 64
  bits is written out.
\<close>

definition int64 :: "int \<Rightarrow> int" where
  "int64 x = (x + 2 ^ 63) mod 2 ^ 64 - 2 ^ 63"

definition emptyString :: "int \<Rightarrow> string" where
  "emptyString len = spaces (nat len)"

definition pad :: "string \<Rightarrow> int \<Rightarrow> string" where
  "pad s desired_len =
     (let current_len = int (length (decolorize s)); l = int64 (desired_len - current_len)
      in if l \<le> 0 then s else s @ emptyString l)"

text \<open>
  The first loop of \<open>getTableRow\<close>: one cell per schema field, a cell being the list of its
  physical lines. Only a string cell can raise \<open>rowHeight\<close>.
\<close>

definition formatCell ::
  "golib \<Rightarrow> gvalue list \<Rightarrow> nat \<Rightarrow> SchemaField \<Rightarrow> int \<Rightarrow> failure + (string list \<times> int)" where
  "formatCell L row i field rowHeight =
     (if length row \<le> i then Inl IndexPanic
      else if FieldType field = TypeInt then
        (case row ! i of
           GInt n \<Rightarrow> Inr ([sprintf_sp_left_d (FieldSize field) n], rowHeight)
         | _ \<Rightarrow> Inl TypeAssertionPanic)
      else if FieldType field = TypeString then
        (case row ! i of
           GString v \<Rightarrow>
             (let s = ReplaceAll_percent v;
                  splittedS = Split s;
                  multiLineCell = map (\<lambda>r. '' '' @ pad r (FieldSize field)) splittedS
              in Inr (multiLineCell,
                      if rowHeight < int (length multiLineCell)
                      then int (length multiLineCell) else rowHeight))
         | _ \<Rightarrow> Inl TypeAssertionPanic)
      else if FieldType field = TypeFloat then
        (case row ! i of
           GFloat x \<Rightarrow>
             Inr ([sprintf_sp_left_f L (FieldSize field) (FieldPrecision field) x], rowHeight)
         | _ \<Rightarrow> Inl TypeAssertionPanic)
      else Inr ([sprintf_sp_left_plus_v L (FieldSize field) (row ! i)], rowHeight))"

fun formatCells ::
  "golib \<Rightarrow> gvalue list \<Rightarrow> SchemaField list \<Rightarrow> nat \<Rightarrow> string list list \<Rightarrow> int
     \<Rightarrow> failure + (string list list \<times> int)" where
  "formatCells L row [] i rowStr rowHeight = Inr (rowStr, rowHeight)"
| "formatCells L row (field # fs) i rowStr rowHeight =
     (case formatCell L row i field rowHeight of
        Inl e \<Rightarrow> Inl e
      | Inr (cell, h) \<Rightarrow> formatCells L row fs (Suc i) (rowStr @ [cell]) h)"

text \<open>The second loop: the width of a cell, then its lines padded and filled up.\<close>

fun cellMaxWidth :: "string list \<Rightarrow> int \<Rightarrow> int" where
  "cellMaxWidth [] maxWidth = maxWidth"
| "cellMaxWidth (s # ss) maxWidth =
     cellMaxWidth ss
       (if maxWidth < int (length s) then int (length (decolorize s)) else maxWidth)"

definition fillCell :: "int \<Rightarrow> string list \<Rightarrow> string list" where
  "fillCell rowHeight cell =
     (let maxWidth = cellMaxWidth cell 0
      in map (sprintf_left_s maxWidth) cell
         @ map (\<lambda>j. emptyString maxWidth) [length cell ..< nat rowHeight])"

text \<open>The third loop: line \<open>y\<close> of the row takes line \<open>y\<close> of every cell.\<close>

fun rowLine :: "string list list \<Rightarrow> nat \<Rightarrow> failure + string" where
  "rowLine [] y = Inr DefaultDelimiter"
| "rowLine (cell # cells) y =
     (if length cell \<le> y then Inl IndexPanic
      else (case rowLine cells y of
              Inl e \<Rightarrow> Inl e
            | Inr rest \<Rightarrow> Inr (DefaultDelimiter @ cell ! y @ rest)))"

fun rowLines :: "string list list \<Rightarrow> nat list \<Rightarrow> int \<Rightarrow> failure + string" where
  "rowLines rowStr [] rowHeight = Inr []"
| "rowLines rowStr (y # ys) rowHeight =
     (case rowLine rowStr y of
        Inl e \<Rightarrow> Inl e
      | Inr line \<Rightarrow>
          (case rowLines rowStr ys rowHeight of
             Inl e \<Rightarrow> Inl e
           | Inr rest \<Rightarrow>
               Inr (line @ (if int y < rowHeight - 1 then [newline] else []) @ rest)))"

definition getTableRow :: "golib \<Rightarrow> gvalue list \<Rightarrow> SchemaField list \<Rightarrow> failure + string" where
  "getTableRow L row schema =
     (case formatCells L row schema 0 [] 1 of
        Inl e \<Rightarrow> Inl e
      | Inr (rowStr, rowHeight) \<Rightarrow>
          rowLines (map (fillCell rowHeight) rowStr) [0 ..< nat rowHeight] rowHeight)"

text \<open>The header is a row of field names, every column taken as a string column.\<close>

definition getTableHeader :: "golib \<Rightarrow> SchemaField list \<Rightarrow> failure + string" where
  "getTableHeader L schema =
     getTableRow L (map (\<lambda>field. GString (FieldName field)) schema)
       (map (\<lambda>field. \<lparr>FieldName = [], FieldType = TypeString, FieldSize = FieldSize field,
                      FieldPrecision = 0, FieldFormat = []\<rparr>) schema)"

text \<open>The delimiter row: per column, \<open>FieldSize + 1\<close> dashes and a plus sign.\<close>

fun delimiterLoop :: "SchemaField list \<Rightarrow> string \<Rightarrow> string" where
  "delimiterLoop [] row = row"
| "delimiterLoop (field # fs) row =
     delimiterLoop fs
       (row @ replicate (nat (int64 (FieldSize field + 1))) CHR ''-'' @ ''+'')"

definition getTableDelimiter :: "SchemaField list \<Rightarrow> string" where
  "getTableDelimiter schema = delimiterLoop schema ''+''"

section \<open>Measuring cells and adjusting field sizes\<close>

fun maxLineWidth :: "string list \<Rightarrow> int \<Rightarrow> int" where
  "maxLineWidth [] maxW = maxW"
| "maxLineWidth (w # ws) maxW =
     maxLineWidth ws (if maxW < int (length w) then int (length w) else maxW)"

definition cellText :: "golib \<Rightarrow> gvalue \<Rightarrow> SchemaField \<Rightarrow> failure + string" where
  \<comment> \<open>the type switch of \<open>getCellSize\<close>\<close>
  "cellText L d field =
     (if FieldType field = TypeInt then
        (case d of GInt n \<Rightarrow> Inr (show_int n) | _ \<Rightarrow> Inl TypeAssertionPanic)
      else if FieldType field = TypeString then
        (case d of GString v \<Rightarrow> Inr (decolorize v) | _ \<Rightarrow> Inl TypeAssertionPanic)
      else if FieldType field = TypeFloat then
        (case d of
           GFloat x \<Rightarrow> Inr (sprintf_prec_f L (FieldPrecision field) x)
         | _ \<Rightarrow> Inl TypeAssertionPanic)
      else Inr (decolorize (sprintf_v L d)))"

definition getCellSize :: "golib \<Rightarrow> gvalue \<Rightarrow> SchemaField \<Rightarrow> failure + int" where
  "getCellSize L d field =
     (case cellText L d field of
        Inl e \<Rightarrow> Inl e
      | Inr s \<Rightarrow> Inr (maxLineWidth (Split s) 0))"

fun getRowSize_loop ::
  "golib \<Rightarrow> gvalue list list \<Rightarrow> SchemaField list \<Rightarrow> nat \<Rightarrow> int \<Rightarrow> failure + int" where
  "getRowSize_loop L rows [] i sz = Inr sz"
| "getRowSize_loop L rows (f # fs) i sz =
     (if rows = [] then Inl IndexPanic
      else if length (rows ! 0) \<le> i then Inl IndexPanic
      else (case getCellSize L (rows ! 0 ! i) f of
              Inl e \<Rightarrow> Inl e
            | Inr c \<Rightarrow> getRowSize_loop L rows fs (Suc i) (sz + c)))"

definition getRowSize :: "golib \<Rightarrow> gvalue list list \<Rightarrow> SchemaField list \<Rightarrow> failure + int" where
  "getRowSize L rows schema = getRowSize_loop L rows schema 0 0"

text \<open>
  \<open>AdjustFieldSizes\<close>: the loop over the rows of column \<open>i\<close>, the step for one column, and
  the loop over the columns. The table is updated in place; the model returns the new table.
  \<open>maxLen + 1\<close> is formed only when \<open>maxLen\<close> is the length of a string.
\<close>

fun columnMaxLen ::
  "golib \<Rightarrow> gvalue list list \<Rightarrow> nat \<Rightarrow> SchemaField \<Rightarrow> int \<Rightarrow> failure + int" where
  "columnMaxLen L [] i f maxLen = Inr maxLen"
| "columnMaxLen L (row # rows) i f maxLen =
     (if length row \<le> i then Inl IndexPanic
      else (case getCellSize L (row ! i) f of
              Inl e \<Rightarrow> Inl e
            | Inr cellSize \<Rightarrow>
                columnMaxLen L rows i f (if maxLen < cellSize then cellSize else maxLen)))"

definition adjustField ::
  "golib \<Rightarrow> gvalue list list \<Rightarrow> nat \<Rightarrow> SchemaField \<Rightarrow> failure + SchemaField" where
  "adjustField L rows i f =
     (let maxLen = FieldSize f;
          maxLen = (if maxLen < int (length (FieldName f)) then int (length (FieldName f))
                    else maxLen)
      in case columnMaxLen L rows i f maxLen of
           Inl e \<Rightarrow> Inl e
         | Inr maxLen \<Rightarrow>
             Inr (if FieldSize f < maxLen then f\<lparr>FieldSize := maxLen + 1\<rparr> else f))"

fun adjustLoop ::
  "golib \<Rightarrow> gvalue list list \<Rightarrow> SchemaField list \<Rightarrow> nat \<Rightarrow> failure + SchemaField list" where
  "adjustLoop L rows [] i = Inr []"
| "adjustLoop L rows (f # fs) i =
     (case adjustField L rows i f of
        Inl e \<Rightarrow> Inl e
      | Inr f' \<Rightarrow>
          (case adjustLoop L rows fs (Suc i) of
             Inl e \<Rightarrow> Inl e
           | Inr fs' \<Rightarrow> Inr (f' # fs')))"

definition AdjustFieldSizes :: "golib \<Rightarrow> Table \<Rightarrow> failure + Table" where
  "AdjustFieldSizes L t =
     (case adjustLoop L (Data t) (Schema t) 0 of
        Inl e \<Rightarrow> Inl e
      | Inr s \<Rightarrow> Inr (t\<lparr>Schema := s\<rparr>))"

section \<open>Assembling the table\<close>

fun Join :: "string list \<Rightarrow> string \<Rightarrow> string" where
  "Join [] sep = []"
| "Join [x] sep = x"
| "Join (x # y # ys) sep = x @ sep @ Join (y # ys) sep"

fun tableRows :: "golib \<Rightarrow> gvalue list list \<Rightarrow> SchemaField list \<Rightarrow> failure + string list" where
  "tableRows L [] schema = Inr []"
| "tableRows L (row # rows) schema =
     (case getTableRow L row schema of
        Inl e \<Rightarrow> Inl e
      | Inr r \<Rightarrow>
          (case tableRows L rows schema of
             Inl e \<Rightarrow> Inl e
           | Inr rs \<Rightarrow> Inr (r # rs)))"

definition getTableAsString ::
  "golib \<Rightarrow> gvalue list list \<Rightarrow> SchemaField list \<Rightarrow> failure + string" where
  "getTableAsString L rows schema =
     (case getTableHeader L schema of
        Inl e \<Rightarrow> Inl e
      | Inr header \<Rightarrow>
          (case tableRows L rows schema of
             Inl e \<Rightarrow> Inl e
           | Inr body \<Rightarrow>
               Inr (Join ([getTableDelimiter schema, header, getTableDelimiter schema]
                          @ body @ [getTableDelimiter schema]) [newline]
                    @ [newline])))"

section \<open>Serializers\<close>

fun rowAsMap ::
  "(string \<Rightarrow> string) \<Rightarrow> gvalue list \<Rightarrow> SchemaField list \<Rightarrow> nat \<Rightarrow> (string \<rightharpoonup> gvalue)
     \<Rightarrow> failure + (string \<rightharpoonup> gvalue)" where
  "rowAsMap key row [] i m = Inr m"
| "rowAsMap key row (field # fs) i m =
     (if length row \<le> i then Inl IndexPanic
      else rowAsMap key row fs (Suc i) (m(key (FieldName field) \<mapsto> row ! i)))"

fun dataAsMap ::
  "(string \<Rightarrow> string) \<Rightarrow> gvalue list list \<Rightarrow> SchemaField list
     \<Rightarrow> failure + (string \<rightharpoonup> gvalue) list" where
  "dataAsMap key [] schema = Inr []"
| "dataAsMap key (row # rows) schema =
     (case rowAsMap key row schema 0 Map.empty of
        Inl e \<Rightarrow> Inl e
      | Inr m \<Rightarrow>
          (case dataAsMap key rows schema of
             Inl e \<Rightarrow> Inl e
           | Inr ms \<Rightarrow> Inr (m # ms)))"

definition getTableAsYAMLString ::
  "golib \<Rightarrow> gvalue list list \<Rightarrow> SchemaField list \<Rightarrow> failure + string" where
  "getTableAsYAMLString L rows schema =
     (case dataAsMap (\<lambda>n. ToLowerCamel L (ToLower L n)) rows schema of
        Inl e \<Rightarrow> Inl e
      | Inr ms \<Rightarrow>
          (case yaml_Marshal L ms of
             Inl e \<Rightarrow> Inl e
           | Inr ret \<Rightarrow> Inr (decolorize ret)))"

definition getTableAsJSONString ::
  "golib \<Rightarrow> gvalue list list \<Rightarrow> SchemaField list \<Rightarrow> failure + string" where
  "getTableAsJSONString L rows schema =
     (case dataAsMap (\<lambda>n. n) rows schema of
        Inl e \<Rightarrow> Inl e
      | Inr ms \<Rightarrow>
          (case json_MarshalIndent L ms of
             Inl e \<Rightarrow> Inl e
           | Inr ret \<Rightarrow> Inr (decolorize ret)))"

definition sprintf_f :: "golib \<Rightarrow> float64 \<Rightarrow> string" where
  \<comment> \<open>\<open>fmt.Sprintf("%f", x)\<close>: six fractional digits\<close>
  "sprintf_f L x =
     (case x of
        Finite s m e \<Rightarrow> FormatFloat_f 6 s m e
      | _ \<Rightarrow> Sprintf L ''%f'' (GFloat x))"

definition csvCell :: "golib \<Rightarrow> gvalue list \<Rightarrow> nat \<Rightarrow> SchemaField \<Rightarrow> failure + string" where
  "csvCell L row i field =
     (if length row \<le> i then Inl IndexPanic
      else if FieldType field = TypeInt then
        (case row ! i of GInt n \<Rightarrow> Inr (show_int n) | _ \<Rightarrow> Inl TypeAssertionPanic)
      else if FieldType field = TypeString then
        (case row ! i of GString v \<Rightarrow> Inr v | _ \<Rightarrow> Inl TypeAssertionPanic)
      else if FieldType field = TypeFloat then
        (case row ! i of GFloat x \<Rightarrow> Inr (sprintf_f L x) | _ \<Rightarrow> Inl TypeAssertionPanic)
      else if FieldType field = TypeInterface then Inr (sprintf_v L (row ! i))
      else if FieldType field = TypeDateTime then
        (case row ! i of GString v \<Rightarrow> Inr v | _ \<Rightarrow> Inl TypeAssertionPanic)
      else Inr (sprintf_v L (row ! i)))"

fun csvRow :: "golib \<Rightarrow> gvalue list \<Rightarrow> SchemaField list \<Rightarrow> nat \<Rightarrow> failure + string list" where
  "csvRow L row [] i = Inr []"
| "csvRow L row (field # fs) i =
     (case csvCell L row i field of
        Inl e \<Rightarrow> Inl e
      | Inr c \<Rightarrow>
          (case csvRow L row fs (Suc i) of
             Inl e \<Rightarrow> Inl e
           | Inr cs \<Rightarrow> Inr (c # cs)))"

fun csvRows :: "golib \<Rightarrow> gvalue list list \<Rightarrow> SchemaField list \<Rightarrow> failure + string list list" where
  "csvRows L [] schema = Inr []"
| "csvRows L (row # rows) schema =
     (case csvRow L row schema 0 of
        Inl e \<Rightarrow> Inl e
      | Inr r \<Rightarrow>
          (case csvRows L rows schema of
             Inl e \<Rightarrow> Inl e
           | Inr rs \<Rightarrow> Inr (r # rs)))"

definition getTableAsCSVString ::
  "golib \<Rightarrow> gvalue list list \<Rightarrow> SchemaField list \<Rightarrow> failure + string" where
  "getTableAsCSVString L rows schema =
     (case csvRows L rows schema of
        Inl e \<Rightarrow> Inl e
      | Inr rs \<Rightarrow> Inr (decolorize (csv_Write L (map FieldName schema # rs))))"

section \<open>Folding and the render entry point\<close>

fun foldedRows ::
  "golib \<Rightarrow> gvalue list list \<Rightarrow> SchemaField list \<Rightarrow> failure + gvalue list list" where
  "foldedRows L [] schema = Inr []"
| "foldedRows L (row # rows) schema =
     (case getTableAsYAMLString L [row] schema of
        Inl e \<Rightarrow> Inl e
      | Inr cell \<Rightarrow>
          (case foldedRows L rows schema of
             Inl e \<Rightarrow> Inl e
           | Inr newData \<Rightarrow> Inr ([GString cell] # newData)))"

definition foldedSchema :: "SchemaField list" where
  "foldedSchema =
     [\<lparr>FieldName = ''Values'', FieldType = TypeString, FieldSize = 5,
       FieldPrecision = 0, FieldFormat = []\<rparr>]"

definition getFoldedTableAsString ::
  "golib \<Rightarrow> gvalue list list \<Rightarrow> SchemaField list \<Rightarrow> failure + string" where
  "getFoldedTableAsString L rows schema =
     (case foldedRows L rows schema of
        Inl e \<Rightarrow> Inl e
      | Inr newData \<Rightarrow>
          (case AdjustFieldSizes L \<lparr>Data = newData, Schema = foldedSchema\<rparr> of
             Inl e \<Rightarrow> Inl e
           | Inr table \<Rightarrow> getTableAsString L (Data table) (Schema table)))"

definition footer :: "nat \<Rightarrow> string \<Rightarrow> string" where
  \<comment> \<open>\<open>fmt.Sprintf("Total: %d %s\n\n", len(t.Data), tableName)\<close>\<close>
  "footer n tableName =
     ''Total: '' @ show_int (int n) @ '' '' @ tableName @ [newline, newline]"

definition renderText ::
  "golib \<Rightarrow> Table \<Rightarrow> string \<Rightarrow> string \<Rightarrow> int \<Rightarrow> failure + (string \<times> Table)" where
  \<comment> \<open>the case \<open>""\<close> of \<open>RenderTableFoldable\<close>\<close>
  "renderText L t tableName topLine foldAtLength =
     (let sb = (if topLine \<noteq> [] then topLine @ [newline] else [])
      in case AdjustFieldSizes L t of
           Inl e \<Rightarrow> Inl e
         | Inr t' \<Rightarrow>
             (case (if Data t' \<noteq> []
                    then (case getRowSize L (Data t') (Schema t') of
                            Inl e \<Rightarrow> Inl e
                          | Inr sz \<Rightarrow> Inr (foldAtLength < sz))
                    else Inr False) of
                Inl e \<Rightarrow> Inl e
              | Inr folded \<Rightarrow>
                  (case (if folded then getFoldedTableAsString L (Data t') (Schema t')
                         else getTableAsString L (Data t') (Schema t')) of
                     Inl e \<Rightarrow> Inl e
                   | Inr s \<Rightarrow> Inr (sb @ s @ footer (length (Data t')) tableName, t'))))"

definition RenderTableFoldable ::
  "golib \<Rightarrow> Table \<Rightarrow> string \<Rightarrow> string \<Rightarrow> string \<Rightarrow> int \<Rightarrow> failure + (string \<times> Table)" where
  "RenderTableFoldable L t tableName topLine format foldAtLength =
     (if format = ''json'' \<or> format = ''JSON'' then
        (case getTableAsJSONString L (Data t) (Schema t) of
           Inl e \<Rightarrow> Inl e | Inr ret \<Rightarrow> Inr (ret, t))
      else if format = ''csv'' \<or> format = ''CSV'' then
        (case getTableAsCSVString L (Data t) (Schema t) of
           Inl e \<Rightarrow> Inl e | Inr ret \<Rightarrow> Inr (ret, t))
      else if format = ''yaml'' \<or> format = ''YAML'' then
        (case getTableAsYAMLString L (Data t) (Schema t) of
           Inl e \<Rightarrow> Inl e | Inr ret \<Rightarrow> Inr (ret, t))
      else if format = [] then renderText L t tableName topLine foldAtLength
      else Inl (ReturnedError (''Invalid format '' @ [CHR 0x27] @ format @ [CHR 0x27]
                  @ '' given. Valid values are json, JSON, csv, CSV, yaml or YAML.'')))"

definition RenderTable ::
  "golib \<Rightarrow> Table \<Rightarrow> string \<Rightarrow> string \<Rightarrow> string \<Rightarrow> failure + (string \<times> Table)" where
  "RenderTable L t tableName topLine format =
     RenderTableFoldable L t tableName topLine format DefaultFoldAtLength"

section \<open>The multi-key sorter\<close>

text \<open>
  A comparator may print to standard output (the first component of its result) and panics
  when an operand has the wrong dynamic type.
\<close>

type_synonym lessFunc = "gvalue \<Rightarrow> gvalue \<Rightarrow> SchemaField \<Rightarrow> string list \<times> (failure + bool)"

record MultiSorter =
  ms_data :: "gvalue list list"
  ms_less :: "lessFunc option list"
  ms_schema :: "SchemaField list"
  ms_indexes :: "nat list"

text \<open>Go compares strings byte by byte.\<close>

fun string_less :: "string \<Rightarrow> string \<Rightarrow> bool" where
  "string_less xs [] = False"
| "string_less [] (y # ys) = True"
| "string_less (x # xs) (y # ys) =
     ((of_char x :: nat) < of_char y \<or> (x = y \<and> string_less xs ys))"

text \<open>The order of \<open>float64\<close>: a comparison with NaN is false, the two zeros are equal.\<close>

definition finite_less :: "bool \<Rightarrow> nat \<Rightarrow> int \<Rightarrow> bool \<Rightarrow> nat \<Rightarrow> int \<Rightarrow> bool" where
  "finite_less s1 m1 e1 s2 m2 e2 =
     (let e = min e1 e2;
          v1 = (if s1 then - int m1 else int m1) * 2 ^ nat (e1 - e);
          v2 = (if s2 then - int m2 else int m2) * 2 ^ nat (e2 - e)
      in v1 < v2)"

fun float64_less :: "float64 \<Rightarrow> float64 \<Rightarrow> bool" where
  "float64_less NaN y = False"
| "float64_less x NaN = False"
| "float64_less PosInf y = False"
| "float64_less x PosInf = True"
| "float64_less x NegInf = False"
| "float64_less NegInf y = True"
| "float64_less (Finite s1 m1 e1) (Finite s2 m2 e2) = finite_less s1 m1 e1 s2 m2 e2"

definition lessInt :: lessFunc where
  "lessInt a b field =
     (case a of
        GInt x \<Rightarrow> (case b of GInt y \<Rightarrow> ([], Inr (x < y)) | _ \<Rightarrow> ([], Inl TypeAssertionPanic))
      | _ \<Rightarrow> ([], Inl TypeAssertionPanic))"

definition lessString :: lessFunc where
  "lessString a b field =
     (case a of
        GString x \<Rightarrow>
          (case b of GString y \<Rightarrow> ([], Inr (string_less x y)) | _ \<Rightarrow> ([], Inl TypeAssertionPanic))
      | _ \<Rightarrow> ([], Inl TypeAssertionPanic))"

definition lessFloat :: lessFunc where
  "lessFloat a b field =
     (case a of
        GFloat x \<Rightarrow>
          (case b of GFloat y \<Rightarrow> ([], Inr (float64_less x y)) | _ \<Rightarrow> ([], Inl TypeAssertionPanic))
      | _ \<Rightarrow> ([], Inl TypeAssertionPanic))"

definition lessDateTime :: "golib \<Rightarrow> lessFunc" where
  "lessDateTime L a b field =
     (let layout = (if FieldFormat field \<noteq> [] then FieldFormat field else DefaultTimeFormat)
      in case a of
           GString sa \<Rightarrow>
             (case time_Parse L layout sa of
                None \<Rightarrow> ([''could not convert string '' @ sa @ '' to date time''], Inr False)
              | Some ta \<Rightarrow>
                  (case b of
                     GString sb \<Rightarrow>
                       (case time_Parse L layout sb of
                          None \<Rightarrow>
                            ([''could not convert string '' @ sb @ '' to date time''], Inr False)
                        | Some tb \<Rightarrow> ([], Inr (ta < tb)))
                   | _ \<Rightarrow> ([], Inl TypeAssertionPanic)))
         | _ \<Rightarrow> ([], Inl TypeAssertionPanic))"

definition lessBool :: lessFunc where
  "lessBool a b field =
     (case a of
        GBool x \<Rightarrow> (case b of GBool y \<Rightarrow> ([], Inr (x \<noteq> y)) | _ \<Rightarrow> ([], Inl TypeAssertionPanic))
      | _ \<Rightarrow> ([], Inl TypeAssertionPanic))"

definition TableSorter :: "SchemaField list \<Rightarrow> MultiSorter" where
  "TableSorter schema = \<lparr>ms_data = [], ms_less = [], ms_schema = schema, ms_indexes = []\<rparr>"

text \<open>
  \<open>OrderBy\<close>: the inner loop finds the first field of the name, the switch picks the
  comparator of its type (none for a type without a case, after a message), the outer loop
  fills \<open>less\<close> and \<open>indexes\<close>. An unknown name ends the construction with a nil sorter.
\<close>

fun findField :: "SchemaField list \<Rightarrow> string \<Rightarrow> nat \<Rightarrow> (nat \<times> SchemaField) option" where
  "findField [] fn i = None"
| "findField (f # fs) fn i = (if FieldName f = fn then Some (i, f) else findField fs fn (Suc i))"

definition lessForType :: "golib \<Rightarrow> int \<Rightarrow> string list \<times> lessFunc option" where
  "lessForType L ty =
     (if ty = TypeInt then ([], Some lessInt)
      else if ty = TypeString then ([], Some lessString)
      else if ty = TypeFloat then ([], Some lessFloat)
      else if ty = TypeDateTime then ([], Some (lessDateTime L))
      else if ty = TypeBool then ([], Some lessBool)
      else ([''could not find type '' @ show_int ty], None))"

fun orderByLoop ::
  "golib \<Rightarrow> SchemaField list \<Rightarrow> string list
     \<Rightarrow> string list \<times> (lessFunc option list \<times> nat list) option" where
  "orderByLoop L schema [] = ([], Some ([], []))"
| "orderByLoop L schema (fn # fns) =
     (case findField schema fn 0 of
        None \<Rightarrow> ([''could not find field with name '' @ fn @ [newline]], None)
      | Some (i, field) \<Rightarrow>
          (case lessForType L (FieldType field) of
             (out1, lf) \<Rightarrow>
               (case orderByLoop L schema fns of
                  (out2, None) \<Rightarrow> (out1 @ out2, None)
                | (out2, Some (ls, ixs)) \<Rightarrow> (out1 @ out2, Some (lf # ls, i # ixs)))))"

definition OrderBy ::
  "golib \<Rightarrow> MultiSorter \<Rightarrow> string list \<Rightarrow> string list \<times> MultiSorter option" where
  "OrderBy L ms fieldNames =
     (case orderByLoop L (ms_schema ms) fieldNames of
        (out, None) \<Rightarrow> (out, None)
      | (out, Some (ls, ixs)) \<Rightarrow> (out, Some (ms\<lparr>ms_less := ls, ms_indexes := ixs\<rparr>)))"

text \<open>
  \<open>Less\<close>: \<open>applyLess ms k p q\<close> is the call
  \<open>ms.less[k](p[index], q[index], &ms.schema[index])\<close> with \<open>index = ms.indexes[k]\<close>.
\<close>

definition applyLess ::
  "MultiSorter \<Rightarrow> nat \<Rightarrow> gvalue list \<Rightarrow> gvalue list \<Rightarrow> string list \<times> (failure + bool)" where
  "applyLess ms k p q =
     (if length (ms_less ms) \<le> k \<or> length (ms_indexes ms) \<le> k then ([], Inl IndexPanic)
      else (let index = ms_indexes ms ! k
            in if length p \<le> index \<or> length q \<le> index \<or> length (ms_schema ms) \<le> index
               then ([], Inl IndexPanic)
               else (case ms_less ms ! k of
                       None \<Rightarrow> ([], Inl NilPanic)
                     | Some lf \<Rightarrow> lf (p ! index) (q ! index) (ms_schema ms ! index))))"

function lessLoop ::
  "MultiSorter \<Rightarrow> gvalue list \<Rightarrow> gvalue list \<Rightarrow> nat \<Rightarrow> string list \<times> (failure + bool)" where
  "lessLoop ms p q k =
     (if int k < int (length (ms_less ms)) - 1 then
        (case applyLess ms k p q of
           (out1, Inl e) \<Rightarrow> (out1, Inl e)
         | (out1, Inr fwd) \<Rightarrow>
             if fwd then (out1, Inr True)
             else (case applyLess ms k q p of
                     (out2, Inl e) \<Rightarrow> (out1 @ out2, Inl e)
                   | (out2, Inr bwd) \<Rightarrow>
                       if bwd then (out1 @ out2, Inr False)
                       else (case lessLoop ms p q (Suc k) of
                               (out3, r) \<Rightarrow> (out1 @ out2 @ out3, r))))
      else applyLess ms k p q)"
  by pat_completeness auto
termination
  by (relation "measure (\<lambda>(ms, p, q, k). length (ms_less ms) - k)") auto

declare lessLoop.simps [simp del]

definition Less :: "MultiSorter \<Rightarrow> nat \<Rightarrow> nat \<Rightarrow> string list \<times> (failure + bool)" where
  "Less ms i j =
     (if length (ms_data ms) \<le> i \<or> length (ms_data ms) \<le> j then ([], Inl IndexPanic)
      else lessLoop ms (ms_data ms ! i) (ms_data ms ! j) 0)"

section \<open>Notions used in the statements\<close>

text \<open>
  The predicate of key \<open>k\<close> of a sorter on the pair \<open>(p, q)\<close>: the comparator
  \<open>less[k]\<close> applied to the cells of \<open>p\<close> and \<open>q\<close> in the column \<open>indexes[k]\<close> and to
  that column's field, as a shorthand for use in statements. A key without a comparator
  panics when it is consulted. The key ties the pair when its predicate is false in both
  directions.
\<close>

abbreviation keyLess ::
  "MultiSorter \<Rightarrow> nat \<Rightarrow> gvalue list \<Rightarrow> gvalue list \<Rightarrow> failure + bool" where
  "keyLess ms k p q \<equiv>
     (case ms_less ms ! k of
        None \<Rightarrow> Inl NilPanic
      | Some lf \<Rightarrow>
          snd (lf (p ! (ms_indexes ms ! k)) (q ! (ms_indexes ms ! k))
                 (ms_schema ms ! (ms_indexes ms ! k))))"

abbreviation keyTies :: "MultiSorter \<Rightarrow> nat \<Rightarrow> gvalue list \<Rightarrow> gvalue list \<Rightarrow> bool" where
  "keyTies ms k p q \<equiv> keyLess ms k p q = Inr False \<and> keyLess ms k q p = Inr False"

text \<open>The schema of a folded table whose only column has width \<open>w\<close>.\<close>

definition valuesSchema :: "int \<Rightarrow> SchemaField list" where
  "valuesSchema w =
     [\<lparr>FieldName = ''Values'', FieldType = TypeString, FieldSize = w,
       FieldPrecision = 0, FieldFormat = []\<rparr>]"

text \<open>
  A physical line of a row of \<open>n\<close> cells: the delimiter before every cell's text and after
  the last one.
\<close>

definition cellsLine :: "nat \<Rightarrow> (nat \<Rightarrow> string) \<Rightarrow> string" where
  "cellsLine n e = concat (map (\<lambda>i. DefaultDelimiter @ e i) [0 ..< n]) @ DefaultDelimiter"

text \<open>
  Text that a Text cell shows as it stands: no escape character, no percent sign (the
  renderer doubles it), one byte per character. A plain line has no line break either.
\<close>

definition plainText :: "string \<Rightarrow> bool" where
  "plainText s = (\<forall>c \<in> set s. c \<noteq> ESC \<and> c \<noteq> CHR ''%'' \<and> (of_char c :: nat) < 128)"

definition plainLine :: "string \<Rightarrow> bool" where
  "plainLine s = (plainText s \<and> newline \<notin> set s)"

text \<open>
  The bordered layout, written out. The border has a plus sign at every column boundary
  and \<open>FieldSize + 1\<close> dashes per column. The header shows every field name after a blank,
  padded with blanks to the width of its column. The table is the border, the header, the
  border, the rows and the border, each ended by a line break.
\<close>

definition borderLine :: "SchemaField list \<Rightarrow> string" where
  "borderLine schema =
     ''+'' @ concat (map (\<lambda>f. replicate (nat (FieldSize f + 1)) CHR ''-'' @ ''+'') schema)"

definition headerLine :: "SchemaField list \<Rightarrow> string" where
  "headerLine schema =
     cellsLine (length schema)
       (\<lambda>i. '' '' @ FieldName (schema ! i)
              @ spaces (nat (FieldSize (schema ! i)) - length (FieldName (schema ! i))))"

definition bordered :: "string \<Rightarrow> string \<Rightarrow> string list \<Rightarrow> string" where
  "bordered border header rows =
     concat (map (\<lambda>l. l @ [newline]) ([border, header, border] @ rows @ [border]))"

text \<open>
  The folded table of a list of records, written out. Its only column, \<open>Values\<close>, is one
  character wider than the longest line of the records and than the six letters of its
  name. Every line of every record is shown after a blank, padded with blanks to that
  width, between two delimiters.
\<close>

definition foldedWidth :: "string list \<Rightarrow> int" where
  "foldedWidth cells =
     Max (set (6 # map (\<lambda>l. int (length l)) (concat (map (\<lambda>c. Split (decolorize c)) cells))))
       + 1"

definition boxedLine :: "int \<Rightarrow> string \<Rightarrow> string" where
  "boxedLine w l = ''| '' @ l @ spaces (nat w - length l) @ ''|''"

definition foldedTable :: "string list \<Rightarrow> string" where
  "foldedTable cells =
     (let w = foldedWidth cells;
          border = ''+'' @ replicate (nat (w + 1)) CHR ''-'' @ ''+''
      in bordered border (boxedLine w ''Values'')
           (map (boxedLine w) (concat (map Split cells))))"

section \<open>Inputs of the test suite\<close>

text \<open>
  A library instance for running the model on concrete inputs: \<open>time_Parse\<close> rejects the
  string \<open>bad\<close> and maps any other string to its length; \<open>yaml_Marshal\<close> writes, for
  every record, its entries \<open>ID\<close> and \<open>LABEL\<close> on a line each.
\<close>

definition stub_lib :: golib where
  "stub_lib =
     \<lparr>Sprintf = (\<lambda>fmt v. ''?''),
      time_Parse = (\<lambda>layout s. if s = ''bad'' then None else Some (int (length s))),
      yaml_Marshal =
        (\<lambda>ms. Inr (concat (map (\<lambda>m.
           ''- id: '' @ (case m ''ID'' of Some (GInt n) \<Rightarrow> show_int n | _ \<Rightarrow> ''?'')
             @ [newline] @
           ''  label: '' @ (case m ''LABEL'' of Some (GString s) \<Rightarrow> s | _ \<Rightarrow> ''?'')
             @ [newline]) ms))),
      json_MarshalIndent = (\<lambda>ms. Inr ''[]''),
      csv_Write = (\<lambda>rs. []),
      ToLowerCamel = (\<lambda>s. s),
      ToLower = (\<lambda>s. s)\<rparr>"

text \<open>The schema of \<open>TestGetTableDelimiter\<close>, and the float64 nearest to \<open>20.1\<close>.\<close>

definition scenario_schema :: "SchemaField list" where
  "scenario_schema =
     [\<lparr>FieldName = ''ID'', FieldType = TypeInt, FieldSize = 6,
       FieldPrecision = 0, FieldFormat = []\<rparr>,
      \<lparr>FieldName = ''LABEL'', FieldType = TypeString, FieldSize = 20,
       FieldPrecision = 0, FieldFormat = []\<rparr>,
      \<lparr>FieldName = ''INST.'', FieldType = TypeFloat, FieldSize = 6,
       FieldPrecision = 2, FieldFormat = []\<rparr>]"

definition float_20_1 :: float64 where
  "float_20_1 = Finite False 5657647031884186 (- 48)"

text \<open>Two rows that tie on ID, after \<open>TestTableSortWithSchema\<close>.\<close>

definition tie_rows :: "gvalue list list" where
  "tie_rows = [[GInt 4, GString ''str'', GFloat float_20_1],
               [GInt 4, GString ''xxxx'', GFloat float_20_1]]"

text \<open>The records that \<open>stub_lib\<close> writes for these two rows.\<close>

definition tie_records :: "string list" where
  "tie_records = [''- id: 4'' @ [newline] @ ''  label: str'' @ [newline],
                  ''- id: 4'' @ [newline] @ ''  label: xxxx'' @ [newline]]"

text \<open>
  Rows of \<open>TestTableSortWithSchema\<close> (the floats are 20.1, 2.3, 2.1 and 2.2), and a last
  row that ties with the first on LABEL only.
\<close>

definition sort_rows :: "gvalue list list" where
  "sort_rows =
     [[GInt 4, GString ''str'', GFloat float_20_1],
      [GInt 5, GString ''wt11r444'', GFloat (Finite False 2589569785738035 (- 50))],
      [GInt 5, GString ''wt11r444'', GFloat (Finite False 4728779608739021 (- 51))],
      [GInt 4, GString ''xxxx'', GFloat (Finite False 2476979795053773 (- 50))],
      [GInt 3, GString ''str'', GFloat float_20_1]]"

text \<open>
  The schema of \<open>TestTableSortWithSchemaWithDateTime\<close>, and two rows that tie on LABEL, one
  of them with a date that does not parse.
\<close>

definition dated_schema :: "SchemaField list" where
  "dated_schema =
     [\<lparr>FieldName = ''ID'', FieldType = TypeInt, FieldSize = 6,
       FieldPrecision = 0, FieldFormat = []\<rparr>,
      \<lparr>FieldName = ''LABEL'', FieldType = TypeString, FieldSize = 20,
       FieldPrecision = 0, FieldFormat = []\<rparr>,
      \<lparr>FieldName = ''DATE'', FieldType = TypeDateTime, FieldSize = 6,
       FieldPrecision = 0, FieldFormat = ''2006-01-02T15:04:05Z''\<rparr>]"

definition dated_rows :: "gvalue list list" where
  "dated_rows =
     [[GInt 6, GString ''st11r'', GString ''2013-11-29T13:00:02Z''],
      [GInt 6, GString ''st11r'', GString ''bad'']]"

text \<open>A table after \<open>TestAdjustFieldSizes\<close>: one column fits, three have to grow.\<close>

definition adjust_schema :: "SchemaField list" where
  "adjust_schema =
     [\<lparr>FieldName = ''ID'', FieldType = TypeInt, FieldSize = 3,
       FieldPrecision = 0, FieldFormat = []\<rparr>,
      \<lparr>FieldName = ''LABEL'', FieldType = TypeString, FieldSize = 5,
       FieldPrecision = 0, FieldFormat = []\<rparr>,
      \<lparr>FieldName = ''INST.'', FieldType = TypeFloat, FieldSize = 0,
       FieldPrecision = 4, FieldFormat = []\<rparr>,
      \<lparr>FieldName = ''VERY LONG FIELD NAME'', FieldType = TypeString, FieldSize = 4,
       FieldPrecision = 4, FieldFormat = []\<rparr>]"

definition adjust_rows :: "gvalue list list" where
  "adjust_rows =
     [[GInt 4, GString ''12345'', GFloat float_20_1, GString ''tes''],
      [GInt 6, GString (''123456'' @ [newline] @ ''6789''), GFloat float_20_1, GString ''t'']]"

definition adjusted_schema :: "SchemaField list" where
  "adjusted_schema =
     [\<lparr>FieldName = ''ID'', FieldType = TypeInt, FieldSize = 3,
       FieldPrecision = 0, FieldFormat = []\<rparr>,
      \<lparr>FieldName = ''LABEL'', FieldType = TypeString, FieldSize = 7,
       FieldPrecision = 0, FieldFormat = []\<rparr>,
      \<lparr>FieldName = ''INST.'', FieldType = TypeFloat, FieldSize = 8,
       FieldPrecision = 4, FieldFormat = []\<rparr>,
      \<lparr>FieldName = ''VERY LONG FIELD NAME'', FieldType = TypeString, FieldSize = 21,
       FieldPrecision = 4, FieldFormat = []\<rparr>]"

text \<open>The three-line cell \<open>"a\nbb\nccc"\<close>.\<close>

definition multiline_abc :: string where
  "multiline_abc = ''a'' @ [newline] @ ''bb'' @ [newline] @ ''ccc''"

text \<open>
  Rows around the three-line cell: one whose other cells are single-line, after
  \<open>TestGetTableRowMultiline\<close>, and one with a four-line neighbour.
\<close>

definition multiline_schema :: "SchemaField list" where
  "multiline_schema =
     [\<lparr>FieldName = ''ID'', FieldType = TypeInt, FieldSize = 3,
       FieldPrecision = 0, FieldFormat = []\<rparr>,
      \<lparr>FieldName = ''LABEL'', FieldType = TypeString, FieldSize = 5,
       FieldPrecision = 0, FieldFormat = []\<rparr>,
      \<lparr>FieldName = ''NAME'', FieldType = TypeString, FieldSize = 4,
       FieldPrecision = 0, FieldFormat = []\<rparr>]"

definition multiline_row :: "gvalue list" where
  "multiline_row = [GInt 4, GString multiline_abc, GString ''te'']"

definition four_lines :: string where
  "four_lines = ''1'' @ [newline] @ ''2'' @ [newline] @ ''3'' @ [newline] @ ''4''"

definition text_pair :: "SchemaField list" where
  "text_pair =
     [\<lparr>FieldName = ''A'', FieldType = TypeString, FieldSize = 5,
       FieldPrecision = 0, FieldFormat = []\<rparr>,
      \<lparr>FieldName = ''B'', FieldType = TypeString, FieldSize = 5,
       FieldPrecision = 0, FieldFormat = []\<rparr>]"

text \<open>
  A column of width 5 and a two-line cell whose first line is wider than the column, with
  and without a colour sequence around its second line.
\<close>

definition narrow_field :: SchemaField where
  "narrow_field =
     \<lparr>FieldName = ''A'', FieldType = TypeString, FieldSize = 5,
      FieldPrecision = 0, FieldFormat = []\<rparr>"

definition plain_cell :: string where
  "plain_cell = ''abcdefgh'' @ [newline] @ ''xy''"

definition red_xy :: string where
  "red_xy = [ESC] @ ''[31mxy'' @ [ESC] @ ''[0m''"

definition coloured_cell :: string where
  "coloured_cell = ''abcdefgh'' @ [newline] @ red_xy"

section \<open>Evaluation lemmas\<close>

declare decolorize.simps [simp del]

lemma replicate_numeral: "replicate (numeral k) x = x # replicate (pred_numeral k) x"
  by (simp add: numeral_eq_Suc)

lemma spaces_simps:
  "spaces 0 = []"
  "spaces (Suc n) = CHR '' '' # spaces n"
  "spaces (numeral k) = CHR '' '' # spaces (pred_numeral k)"
  by (simp_all add: spaces_def numeral_eq_Suc)

lemma length_spaces [simp]: "length (spaces n) = n"
  by (simp add: spaces_def)

lemma int64_id: "- (2 ^ 63) \<le> x \<Longrightarrow> x < 2 ^ 63 \<Longrightarrow> int64 x = x"
  unfolding int64_def by (simp add: mod_pos_pos_trivial)

lemma csi_match_no_ESC: "ESC \<noteq> c \<Longrightarrow> csi_match (c # cs) = None"
  by (auto simp: csi_match_def split: list.splits)

lemma decolorize_plain: "ESC \<notin> set s \<Longrightarrow> decolorize s = s"
  by (induction s) (simp_all add: csi_match_no_ESC decolorize.simps)

section \<open>The concrete scenario of the test suite\<close>

lemma FormatFloat_20_1: "FormatFloat_f 2 False 5657647031884186 (- 48) = ''20.10''"
  by (simp add: FormatFloat_f_def round_half_even_def fixed_digits_def show_nat.simps
      digit_char_def Let_def)

lemma scenario_int_cell: "sprintf_sp_left_d 6 4 = '' 4     ''"
  by (simp add: sprintf_sp_left_d_def fmt_num_ok_def show_int_def show_nat.simps
      digit_char_def spaces_simps)

lemma scenario_text_cell: "pad ''str'' 20 = ''str                 ''"
  by (simp add: pad_def int64_id emptyString_def spaces_simps decolorize_plain ESC_def)

lemma scenario_float_cell: "sprintf_sp_left_f L 6 2 float_20_1 = '' 20.10 ''"
  by (simp add: sprintf_sp_left_f_def float_20_1_def fmt_num_ok_def FormatFloat_20_1
      spaces_simps)

lemma scenario_cells:
  "formatCells L [GInt 4, GString ''str'', GFloat float_20_1] scenario_schema 0 [] 1
     = Inr ([['' 4     ''], ['' str                 ''], ['' 20.10 '']], 1)"
  by (simp add: scenario_schema_def formatCell_def TypeInt_def TypeString_def TypeFloat_def
      scenario_int_cell scenario_text_cell scenario_float_cell newline_def)

lemma scenario_fill:
  "fillCell 1 ['' 4     ''] = ['' 4     '']"
  "fillCell 1 ['' str                 ''] = ['' str                 '']"
  "fillCell 1 ['' 20.10 ''] = ['' 20.10 '']"
  by (simp_all add: fillCell_def decolorize_plain ESC_def sprintf_left_s_def fmt_num_ok_def
      RuneCountInString.simps spaces_simps)

text \<open>
  C9. For the schema ID (Integer, width 6), LABEL (Text, width 20), INST. (Float, width 6,
  precision 2) the delimiter line is \<open>+-------+---------------------+-------+\<close>, and the row
  \<open>[4, "str", 20.1]\<close> is rendered as \<open>| 4     | str                 | 20.10 |\<close>.
\<close>

theorem C9_scenario_delimiter_and_row:
  "getTableDelimiter scenario_schema = ''+-------+---------------------+-------+'' \<and>
   getTableRow L [GInt 4, GString ''str'', GFloat float_20_1] scenario_schema
     = Inr ''| 4     | str                 | 20.10 |''"
proof
  show "getTableDelimiter scenario_schema = ''+-------+---------------------+-------+''"
    by (simp add: getTableDelimiter_def scenario_schema_def int64_id replicate_numeral)
  show "getTableRow L [GInt 4, GString ''str'', GFloat float_20_1] scenario_schema
     = Inr ''| 4     | str                 | 20.10 |''"
    by (simp add: getTableRow_def scenario_cells scenario_fill DefaultDelimiter_def)
qed

section \<open>The sorter\<close>

lemma findField_index:
  "findField schema fn i0 = Some (i, f)
     \<Longrightarrow> i0 \<le> i \<and> i - i0 < length schema \<and> schema ! (i - i0) = f"
proof (induction schema arbitrary: i0)
  case Nil
  then show ?case by simp
next
  case (Cons g gs)
  show ?case
  proof (cases "FieldName g = fn")
    case True
    with Cons.prems show ?thesis by simp
  next
    case False
    with Cons.prems have "findField gs fn (Suc i0) = Some (i, f)" by simp
    from Cons.IH [OF this] show ?thesis by (auto simp: Suc_diff_Suc)
  qed
qed

lemma findField_first:
  "findField schema fn i0 = Some (i, f)
     \<Longrightarrow> FieldName f = fn \<and> (\<forall>m < i - i0. FieldName (schema ! m) \<noteq> fn)"
proof (induction schema arbitrary: i0)
  case Nil
  then show ?case by simp
next
  case (Cons g gs)
  show ?case
  proof (cases "FieldName g = fn")
    case True
    with Cons.prems show ?thesis by simp
  next
    case False
    with Cons.prems have ff: "findField gs fn (Suc i0) = Some (i, f)" by simp
    from findField_index [OF ff] have "Suc i0 \<le> i" by simp
    then have d: "i - i0 = Suc (i - Suc i0)" by simp
    from Cons.IH [OF ff] False show ?thesis
      unfolding d by (auto simp: nth_Cons split: nat.splits)
  qed
qed

lemma orderByLoop_keys:
  "orderByLoop L schema names = (out, Some (ls, ixs)) \<Longrightarrow>
     length ls = length names \<and> length ixs = length names \<and>
     (\<forall>k < length names. \<exists>ix f. findField schema (names ! k) 0 = Some (ix, f) \<and>
         ixs ! k = ix \<and> ls ! k = snd (lessForType L (FieldType f)))"
proof (induction names arbitrary: out ls ixs)
  case Nil
  then show ?case by simp
next
  case (Cons fn fns)
  from Cons.prems obtain ix f where ff: "findField schema fn 0 = Some (ix, f)"
    by (cases "findField schema fn 0") auto
  obtain out1 lf where lt: "lessForType L (FieldType f) = (out1, lf)"
    by (cases "lessForType L (FieldType f)")
  from Cons.prems ff lt obtain out2 ls' ixs' where
    rest: "orderByLoop L schema fns = (out2, Some (ls', ixs'))"
    and ls: "ls = lf # ls'" and ixs: "ixs = ix # ixs'"
    by (auto split: prod.splits option.splits)
  from Cons.IH [OF rest] have ih:
    "length ls' = length fns" "length ixs' = length fns"
    "\<forall>k < length fns. \<exists>ix f. findField schema (fns ! k) 0 = Some (ix, f) \<and>
         ixs' ! k = ix \<and> ls' ! k = snd (lessForType L (FieldType f))"
    by simp_all
  show ?case
  proof (intro conjI allI impI)
    fix k assume "k < length (fn # fns)"
    then show "\<exists>ix f. findField schema ((fn # fns) ! k) 0 = Some (ix, f) \<and>
         ixs ! k = ix \<and> ls ! k = snd (lessForType L (FieldType f))"
      using ih(3) ff lt ls ixs by (cases k) auto
  qed (simp_all add: ls ixs ih)
qed

text \<open>What \<open>OrderBy\<close> leaves in the sorter: one key per name, in the order of the names.\<close>

lemma OrderBy_keys:
  assumes "OrderBy L ms0 names = (out, Some ms)"
  shows "ms_schema ms = ms_schema ms0" and "ms_data ms = ms_data ms0"
    and "length (ms_less ms) = length names" and "length (ms_indexes ms) = length names"
    and "\<And>k. k < length names \<Longrightarrow>
           \<exists>f. findField (ms_schema ms0) (names ! k) 0 = Some (ms_indexes ms ! k, f) \<and>
               ms_indexes ms ! k < length (ms_schema ms0) \<and>
               ms_schema ms0 ! (ms_indexes ms ! k) = f \<and>
               FieldName f = names ! k \<and>
               (\<forall>m < ms_indexes ms ! k. FieldName (ms_schema ms0 ! m) \<noteq> names ! k) \<and>
               ms_less ms ! k = snd (lessForType L (FieldType f))"
proof -
  from assms obtain ls ixs where
    loop: "orderByLoop L (ms_schema ms0) names = (out, Some (ls, ixs))"
    and ms: "ms = ms0\<lparr>ms_less := ls, ms_indexes := ixs\<rparr>"
    by (auto simp: OrderBy_def split: prod.splits option.splits)
  note keys = orderByLoop_keys [OF loop]
  show "ms_schema ms = ms_schema ms0" "ms_data ms = ms_data ms0"
    "length (ms_less ms) = length names" "length (ms_indexes ms) = length names"
    using keys by (simp_all add: ms)
  fix k assume "k < length names"
  with keys obtain ix f where ff: "findField (ms_schema ms0) (names ! k) 0 = Some (ix, f)"
    and ix: "ixs ! k = ix" and lf: "ls ! k = snd (lessForType L (FieldType f))"
    by blast
  from findField_index [OF ff] findField_first [OF ff] ff ix lf
  show "\<exists>f. findField (ms_schema ms0) (names ! k) 0 = Some (ms_indexes ms ! k, f) \<and>
               ms_indexes ms ! k < length (ms_schema ms0) \<and>
               ms_schema ms0 ! (ms_indexes ms ! k) = f \<and>
               FieldName f = names ! k \<and>
               (\<forall>m < ms_indexes ms ! k. FieldName (ms_schema ms0 ! m) \<noteq> names ! k) \<and>
               ms_less ms ! k = snd (lessForType L (FieldType f))"
    by (simp add: ms)
qed

text \<open>A call of \<open>Less\<close> within the bounds of its slices is the key's predicate.\<close>

lemma applyLess_keyLess:
  assumes "k < length (ms_less ms)" and "k < length (ms_indexes ms)"
    and "ms_indexes ms ! k < length p" and "ms_indexes ms ! k < length q"
    and "ms_indexes ms ! k < length (ms_schema ms)"
  shows "snd (applyLess ms k p q) = keyLess ms k p q"
  using assms by (simp add: applyLess_def Let_def split: option.splits)

lemma lessLoop_last:
  "Suc k = length (ms_less ms) \<Longrightarrow> lessLoop ms p q k = applyLess ms k p q"
  by (subst lessLoop.simps) auto

lemma lessLoop_fwd:
  "snd (applyLess ms k p q) = Inr True \<Longrightarrow> k < length (ms_less ms)
     \<Longrightarrow> snd (lessLoop ms p q k) = Inr True"
  by (subst lessLoop.simps) (auto split: prod.splits sum.splits)

lemma lessLoop_rev:
  "snd (applyLess ms k p q) = Inr False \<Longrightarrow> snd (applyLess ms k q p) = Inr True \<Longrightarrow>
   k < length (ms_less ms) \<Longrightarrow> snd (lessLoop ms p q k) = Inr False"
  by (subst lessLoop.simps) (auto split: prod.splits sum.splits)

lemma lessLoop_tied:
  "snd (applyLess ms k p q) = Inr False \<Longrightarrow> snd (applyLess ms k q p) = Inr False \<Longrightarrow>
   Suc k < length (ms_less ms) \<Longrightarrow>
   snd (lessLoop ms p q k) = snd (lessLoop ms p q (Suc k))"
  by (subst lessLoop.simps) (auto split: prod.splits sum.splits)

lemma lessLoop_skip:
  "\<forall>j. k0 \<le> j \<and> j < k \<longrightarrow>
       snd (applyLess ms j p q) = Inr False \<and> snd (applyLess ms j q p) = Inr False
     \<Longrightarrow> k0 \<le> k \<Longrightarrow> k < length (ms_less ms) \<Longrightarrow>
   snd (lessLoop ms p q k0) = snd (lessLoop ms p q k)"
proof (induction "k - k0" arbitrary: k0)
  case 0
  then show ?case by simp
next
  case (Suc d)
  then have "snd (applyLess ms k0 p q) = Inr False" "snd (applyLess ms k0 q p) = Inr False"
    and "Suc k0 < length (ms_less ms)" by auto
  then have "snd (lessLoop ms p q k0) = snd (lessLoop ms p q (Suc k0))"
    by (rule lessLoop_tied)
  also have "\<dots> = snd (lessLoop ms p q k)"
    using Suc by (intro Suc.hyps) auto
  finally show ?case .
qed

text \<open>
  \<open>Less\<close> on two rows that have a cell for every field of the schema, for a sorter built by
  \<open>OrderBy\<close>: past the keys that tie, the decision is that of \<open>lessLoop\<close> at the next key.
\<close>

lemma Less_keys:
  assumes "OrderBy L ms0 names = (out, Some ms1)"
    and "ms = ms1\<lparr>ms_data := rows\<rparr>"
    and "i < length rows" and "j < length rows"
    and "p = rows ! i" and "q = rows ! j"
    and "length (ms_schema ms0) \<le> length p" and "length (ms_schema ms0) \<le> length q"
  shows "\<And>k. k < length names \<Longrightarrow> snd (applyLess ms k p q) = keyLess ms k p q"
    and "\<And>k. k < length names \<Longrightarrow> snd (applyLess ms k q p) = keyLess ms k q p"
    and "\<And>k. k < length names \<Longrightarrow> \<forall>m < k. keyTies ms m p q
           \<Longrightarrow> snd (Less ms i j) = snd (lessLoop ms p q k)"
proof -
  note ob = OrderBy_keys [OF assms(1)]
  have len: "length (ms_less ms) = length names" "length (ms_indexes ms) = length names"
    "ms_schema ms = ms_schema ms0"
    using ob(1,3,4) by (simp_all add: assms(2))
  have ix: "ms_indexes ms ! k < length (ms_schema ms0)" if "k < length names" for k
    using ob(5) [OF that] by (auto simp: assms(2))
  show a: "snd (applyLess ms k p q) = keyLess ms k p q" if "k < length names" for k
    using that ix [OF that] assms(7,8) len by (intro applyLess_keyLess) simp_all
  show b: "snd (applyLess ms k q p) = keyLess ms k q p" if "k < length names" for k
    using that ix [OF that] assms(7,8) len by (intro applyLess_keyLess) simp_all
  show "snd (Less ms i j) = snd (lessLoop ms p q k)"
    if "k < length names" "\<forall>m < k. keyTies ms m p q" for k
  proof -
    have "Less ms i j = lessLoop ms p q 0"
      using assms(2-6) by (simp add: Less_def)
    moreover have "snd (lessLoop ms p q 0) = snd (lessLoop ms p q k)"
    proof (rule lessLoop_skip)
      show "\<forall>m. 0 \<le> m \<and> m < k \<longrightarrow>
          snd (applyLess ms m p q) = Inr False \<and> snd (applyLess ms m q p) = Inr False"
        using that a b by auto
    qed (use that len in simp_all)
    ultimately show ?thesis by simp
  qed
qed

text \<open>
  C2. A sorter built by \<open>OrderBy\<close> from a non-empty list of field names holds one key per
  name, in the order given: key \<open>k\<close> is the first column of that name, with the comparator
  of the column's type. Take two rows that have a cell for every field of the schema. The
  predicate of key \<open>k\<close> on the pair is the comparator of the key on the two cells of its
  column. \<open>Less\<close> is decided by the first key whose forward or reverse predicate fires: it
  is true when the forward predicate of that key fires, false when only its reverse
  predicate does. When every key but the last ties, the result is what the last key's
  predicate reports on the pair; when the last key ties as well, that is false, and so is
  its reverse predicate.
\<close>

theorem C2_multi_key_less:
  assumes "OrderBy L ms0 names = (out, Some ms1)" and "names \<noteq> []"
    and "ms = ms1\<lparr>ms_data := rows\<rparr>"
    and "i < length rows" and "j < length rows"
    and "p = rows ! i" and "q = rows ! j"
    and "length (ms_schema ms0) \<le> length p" and "length (ms_schema ms0) \<le> length q"
  shows "ms_schema ms = ms_schema ms0 \<and>
         length (ms_less ms) = length names \<and> length (ms_indexes ms) = length names \<and>
         (\<forall>k < length names.
            ms_indexes ms ! k < length (ms_schema ms0) \<and>
            FieldName (ms_schema ms0 ! (ms_indexes ms ! k)) = names ! k \<and>
            (\<forall>m < ms_indexes ms ! k. FieldName (ms_schema ms0 ! m) \<noteq> names ! k) \<and>
            ms_less ms ! k
              = snd (lessForType L (FieldType (ms_schema ms0 ! (ms_indexes ms ! k))))) \<and>
         (\<forall>k < length names.
            (\<forall>m < k. keyTies ms m p q) \<and> keyLess ms k p q = Inr True
              \<longrightarrow> snd (Less ms i j) = Inr True) \<and>
         (\<forall>k < length names.
            (\<forall>m < k. keyTies ms m p q) \<and> keyLess ms k p q = Inr False
              \<and> keyLess ms k q p = Inr True
              \<longrightarrow> snd (Less ms i j) = Inr False) \<and>
         ((\<forall>m < length names - 1. keyTies ms m p q)
              \<longrightarrow> snd (Less ms i j) = keyLess ms (length names - 1) p q) \<and>
         ((\<forall>m < length names. keyTies ms m p q)
              \<longrightarrow> snd (Less ms i j) = keyLess ms (length names - 1) q p
                \<and> snd (Less ms i j) = Inr False)"
proof -
  note ob = OrderBy_keys [OF assms(1)]
  note lk = Less_keys [OF assms(1) assms(3-9)]
  have len: "length (ms_less ms) = length names"
    using ob(3) by (simp add: assms(3))
  have n: "Suc (length names - 1) = length names" "length names - 1 < length names"
    using assms(2) by (cases names; simp)+
  have last: "snd (Less ms i j) = keyLess ms (length names - 1) p q"
    if "\<forall>m < length names - 1. keyTies ms m p q"
  proof -
    have "snd (Less ms i j) = snd (lessLoop ms p q (length names - 1))"
      using that n(2) by (intro lk(3)) auto
    also have "\<dots> = snd (applyLess ms (length names - 1) p q)"
      using n(1) len by (simp add: lessLoop_last)
    also have "\<dots> = keyLess ms (length names - 1) p q"
      by (rule lk(1) [OF n(2)])
    finally show ?thesis .
  qed
  show ?thesis
  proof (intro conjI allI impI)
    show "ms_schema ms = ms_schema ms0" "length (ms_less ms) = length names"
      "length (ms_indexes ms) = length names"
      using ob(1,3,4) by (simp_all add: assms(3))
  next
    fix k assume k: "k < length names"
    from ob(5) [OF k]
    show "ms_indexes ms ! k < length (ms_schema ms0)"
      "FieldName (ms_schema ms0 ! (ms_indexes ms ! k)) = names ! k"
      "ms_less ms ! k = snd (lessForType L (FieldType (ms_schema ms0 ! (ms_indexes ms ! k))))"
      by (auto simp: assms(3))
    fix m assume "m < ms_indexes ms ! k"
    with ob(5) [OF k] show "FieldName (ms_schema ms0 ! m) \<noteq> names ! k"
      by (auto simp: assms(3))
  next
    fix k assume k: "k < length names"
      "(\<forall>m<k. keyTies ms m p q) \<and> keyLess ms k p q = Inr True"
    then have "snd (Less ms i j) = snd (lessLoop ms p q k)"
      by (intro lk(3)) auto
    moreover have "snd (applyLess ms k p q) = Inr True"
      using k lk(1) [OF k(1)] by simp
    ultimately show "snd (Less ms i j) = Inr True"
      using k(1) len by (simp add: lessLoop_fwd)
  next
    fix k assume k: "k < length names"
      "(\<forall>m<k. keyTies ms m p q) \<and> keyLess ms k p q = Inr False
              \<and> keyLess ms k q p = Inr True"
    then have "snd (Less ms i j) = snd (lessLoop ms p q k)"
      by (intro lk(3)) auto
    moreover have "snd (applyLess ms k p q) = Inr False" "snd (applyLess ms k q p) = Inr True"
      using k lk(1) [OF k(1)] lk(2) [OF k(1)] by simp_all
    ultimately show "snd (Less ms i j) = Inr False"
      using k(1) len by (simp add: lessLoop_rev)
  next
    assume "\<forall>m<length names - 1. keyTies ms m p q"
    then show "snd (Less ms i j) = keyLess ms (length names - 1) p q"
      by (rule last)
  next
    assume t: "\<forall>m<length names. keyTies ms m p q"
    then have a: "snd (Less ms i j) = keyLess ms (length names - 1) p q"
      by (intro last) auto
    from t n(2) have tl: "keyTies ms (length names - 1) p q" by blast
    from a tl show "snd (Less ms i j) = keyLess ms (length names - 1) q p"
      by simp
    from a tl show "snd (Less ms i j) = Inr False" by simp
  qed
qed

theorem C2_multi_key_less_witness:
  "OrderBy stub_lib (TableSorter scenario_schema) [''LABEL'', ''ID'', ''INST.'']
     = ([], Some \<lparr>ms_data = [], ms_less = [Some lessString, Some lessInt, Some lessFloat],
                  ms_schema = scenario_schema, ms_indexes = [1, 0, 2]\<rparr>) \<and>
   map (\<lambda>(i, j).
          Less \<lparr>ms_data = sort_rows, ms_less = [Some lessString, Some lessInt, Some lessFloat],
                ms_schema = scenario_schema, ms_indexes = [1, 0, 2]\<rparr> i j)
       [(1, 3), (3, 1), (4, 0), (0, 4), (2, 1), (1, 2), (1, 1)]
     = [([], Inr True), ([], Inr False), ([], Inr True), ([], Inr False),
        ([], Inr True), ([], Inr False), ([], Inr False)]"
proof -
  let ?ms1 = "\<lparr>ms_data = [], ms_less = [Some lessString, Some lessInt, Some lessFloat],
               ms_schema = scenario_schema, ms_indexes = [1, 0, 2]\<rparr>"
  let ?ms = "\<lparr>ms_data = sort_rows, ms_less = [Some lessString, Some lessInt, Some lessFloat],
              ms_schema = scenario_schema, ms_indexes = [1, 0, 2]\<rparr>"
  have ob: "OrderBy stub_lib (TableSorter scenario_schema) [''LABEL'', ''ID'', ''INST.'']
      = ([], Some ?ms1)"
    by (simp add: OrderBy_def TableSorter_def scenario_schema_def lessForType_def
        TypeInt_def TypeString_def TypeFloat_def)
  have ms: "?ms = ?ms1\<lparr>ms_data := sort_rows\<rparr>" by simp
  have len: "(3::nat) < length sort_rows" "(1::nat) < length sort_rows"
    "(2::nat) < length sort_rows"
    "length (ms_schema (TableSorter scenario_schema)) \<le> length (sort_rows ! 3)"
    "length (ms_schema (TableSorter scenario_schema)) \<le> length (sort_rows ! 1)"
    "length (ms_schema (TableSorter scenario_schema)) \<le> length (sort_rows ! 2)"
    "[''LABEL'', ''ID'', ''INST.''] \<noteq> []"
    by (simp_all add: sort_rows_def TableSorter_def scenario_schema_def)
  note c31 = C2_multi_key_less [OF ob len(7) ms len(1) len(2) refl refl len(4) len(5)]
  note c21 = C2_multi_key_less [OF ob len(7) ms len(3) len(2) refl refl len(6) len(5)]
  have rev: "keyLess ?ms 0 (sort_rows ! 3) (sort_rows ! 1) = Inr False"
    "keyLess ?ms 0 (sort_rows ! 1) (sort_rows ! 3) = Inr True"
    by (simp_all add: sort_rows_def lessString_def)
  have ties: "\<forall>m < length [''LABEL'', ''ID'', ''INST.''] - 1.
      keyTies ?ms m (sort_rows ! 2) (sort_rows ! 1)"
    by (simp add: sort_rows_def lessString_def lessInt_def less_Suc_eq)
  have last: "keyLess ?ms 2 (sort_rows ! 2) (sort_rows ! 1) = Inr True"
    by (simp add: sort_rows_def lessFloat_def finite_less_def)
  from c31 rev have l31: "snd (Less ?ms 3 1) = Inr False"
    by auto
  from c21 ties last have l21: "snd (Less ?ms 2 1) = Inr True"
    by simp
  have direct: "Less ?ms 1 3 = ([], Inr True)" "Less ?ms 4 0 = ([], Inr True)"
    "Less ?ms 0 4 = ([], Inr False)" "Less ?ms 1 2 = ([], Inr False)"
    "Less ?ms 1 1 = ([], Inr False)"
    "fst (Less ?ms 3 1) = []" "fst (Less ?ms 2 1) = []"
    by (simp_all add: Less_def lessLoop.simps applyLess_def sort_rows_def scenario_schema_def
        lessString_def lessInt_def lessFloat_def finite_less_def float_20_1_def)
  from l31 direct(6) have "Less ?ms 3 1 = ([], Inr False)"
    by (simp add: prod_eq_iff)
  moreover from l21 direct(7) have "Less ?ms 2 1 = ([], Inr True)"
    by (simp add: prod_eq_iff)
  ultimately show ?thesis using ob direct(1-5) by simp
qed

text \<open>
  C6. The comparator that \<open>OrderBy\<close> installs for a Boolean column returns true exactly
  when its two operands differ. It gives the same answer, true, for (true, false) and for
  (false, true): it is symmetric, hence not antisymmetric.
\<close>

theorem C6_bool_comparator:
  "lessForType L TypeBool = ([], Some lessBool) \<and>
   (\<forall>a b field. lessBool (GBool a) (GBool b) field = ([], Inr (a \<noteq> b))) \<and>
   lessBool (GBool True) (GBool False) field = ([], Inr True) \<and>
   lessBool (GBool False) (GBool True) field = ([], Inr True)"
  by (simp add: lessForType_def lessBool_def TypeBool_def TypeInt_def TypeString_def
      TypeFloat_def TypeDateTime_def)

text \<open>
  C7. Take a sort key on a DateTime column, at any position \<open>k\<close> of the key list. Its
  comparator parses both operands with the column's \<open>FieldFormat\<close> when it is not empty and
  with \<open>2006-01-02T15:04:05Z\<close> otherwise. When the first operand, or else the second, does
  not parse, the comparator prints a message and answers false; it does not panic. When
  both parse, the answer is whether the first instant is before the second.

  So, on two rows one of which holds a date that does not parse, the key's predicate is
  false in both directions: the key never puts either row before the other, it ties them
  and leaves the pair to the keys after it. When the key is the last one and the keys
  before it tie as well, \<open>Less\<close> is false for the pair in both orders.
\<close>

theorem C7_datetime_comparator:
  assumes "OrderBy L ms0 names = (out, Some ms1)" and "k < length names"
    and "findField (ms_schema ms0) (names ! k) 0 = Some (ix, f)"
    and "FieldType f = TypeDateTime"
    and "layout = (if FieldFormat f \<noteq> [] then FieldFormat f else ''2006-01-02T15:04:05Z'')"
  shows "\<exists>lf. ms_less ms1 ! k = Some lf \<and> ms_indexes ms1 ! k = ix \<and> ms_schema ms1 ! ix = f \<and>
           (\<forall>a b. lf (GString a) (GString b) f =
              (case time_Parse L layout a of
                 None \<Rightarrow> ([''could not convert string '' @ a @ '' to date time''], Inr False)
               | Some ta \<Rightarrow>
                   (case time_Parse L layout b of
                      None \<Rightarrow>
                        ([''could not convert string '' @ b @ '' to date time''], Inr False)
                    | Some tb \<Rightarrow> ([], Inr (ta < tb))))) \<and>
           (i < length rows \<and> j < length rows \<and>
            length (ms_schema ms0) \<le> length (rows ! i) \<and>
            length (ms_schema ms0) \<le> length (rows ! j) \<and>
            rows ! i ! ix = GString a \<and> rows ! j ! ix = GString b \<and>
            (time_Parse L layout a = None \<or> time_Parse L layout b = None)
            \<longrightarrow> keyTies (ms1\<lparr>ms_data := rows\<rparr>) k (rows ! i) (rows ! j) \<and>
                (Suc k = length names \<and>
                 (\<forall>m < k. keyTies (ms1\<lparr>ms_data := rows\<rparr>) m (rows ! i) (rows ! j))
                 \<longrightarrow> snd (Less (ms1\<lparr>ms_data := rows\<rparr>) i j) = Inr False \<and>
                     snd (Less (ms1\<lparr>ms_data := rows\<rparr>) j i) = Inr False))"
proof -
  note ob = OrderBy_keys [OF assms(1)]
  from ob(5) [OF assms(2)] assms(3) have ix: "ms_indexes ms1 ! k = ix"
    and f: "ms_schema ms0 ! ix = f"
    and lf: "ms_less ms1 ! k = snd (lessForType L (FieldType f))"
    by auto
  have "lessForType L (FieldType f) = ([], Some (lessDateTime L))"
    by (simp add: assms(4) lessForType_def TypeBool_def TypeInt_def TypeString_def
        TypeFloat_def TypeDateTime_def)
  with lf have less: "ms_less ms1 ! k = Some (lessDateTime L)" by simp
  have sch: "ms_schema ms1 ! ix = f" using f ob(1) by simp
  have cmp: "lessDateTime L (GString a) (GString b) f =
              (case time_Parse L layout a of
                 None \<Rightarrow> ([''could not convert string '' @ a @ '' to date time''], Inr False)
               | Some ta \<Rightarrow>
                   (case time_Parse L layout b of
                      None \<Rightarrow>
                        ([''could not convert string '' @ b @ '' to date time''], Inr False)
                    | Some tb \<Rightarrow> ([], Inr (ta < tb))))" for a b
    by (simp add: lessDateTime_def assms(5) DefaultTimeFormat_def Let_def
        split: option.splits)
  have rows: "keyTies (ms1\<lparr>ms_data := rows\<rparr>) k (rows ! i) (rows ! j) \<and>
                (Suc k = length names \<and>
                 (\<forall>m < k. keyTies (ms1\<lparr>ms_data := rows\<rparr>) m (rows ! i) (rows ! j))
                 \<longrightarrow> snd (Less (ms1\<lparr>ms_data := rows\<rparr>) i j) = Inr False \<and>
                     snd (Less (ms1\<lparr>ms_data := rows\<rparr>) j i) = Inr False)"
    if r: "i < length rows" "j < length rows"
      "length (ms_schema ms0) \<le> length (rows ! i)"
      "length (ms_schema ms0) \<le> length (rows ! j)"
      "rows ! i ! ix = GString a" "rows ! j ! ix = GString b"
      "time_Parse L layout a = None \<or> time_Parse L layout b = None"
  proof -
    let ?ms = "ms1\<lparr>ms_data := rows\<rparr>"
    note ij = Less_keys [OF assms(1) refl r(1) r(2) refl refl r(3) r(4)]
    note ji = Less_keys [OF assms(1) refl r(2) r(1) refl refl r(4) r(3)]
    have tie: "keyTies ?ms k (rows ! i) (rows ! j)"
      using r(5-7) by (auto simp: less ix sch cmp split: option.splits)
    have "snd (Less ?ms i j) = Inr False \<and> snd (Less ?ms j i) = Inr False"
      if last: "Suc k = length names"
        and before: "\<forall>m < k. keyTies ?ms m (rows ! i) (rows ! j)"
    proof -
      have len: "Suc k = length (ms_less ?ms)" using ob(3) last by simp
      have "snd (Less ?ms i j) = snd (lessLoop ?ms (rows ! i) (rows ! j) k)"
        using before by (intro ij(3) assms(2))
      also have "\<dots> = keyLess ?ms k (rows ! i) (rows ! j)"
        by (simp only: lessLoop_last [OF len] ij(1) [OF assms(2)])
      finally have a: "snd (Less ?ms i j) = Inr False" using tie by simp
      have "snd (Less ?ms j i) = snd (lessLoop ?ms (rows ! j) (rows ! i) k)"
        using before by (intro ji(3) assms(2)) blast
      also have "\<dots> = keyLess ?ms k (rows ! j) (rows ! i)"
        by (simp only: lessLoop_last [OF len] ji(1) [OF assms(2)])
      finally have "snd (Less ?ms j i) = Inr False" using tie by simp
      with a show ?thesis by simp
    qed
    with tie show ?thesis by blast
  qed
  then have imp: "i < length rows \<and> j < length rows \<and>
            length (ms_schema ms0) \<le> length (rows ! i) \<and>
            length (ms_schema ms0) \<le> length (rows ! j) \<and>
            rows ! i ! ix = GString a \<and> rows ! j ! ix = GString b \<and>
            (time_Parse L layout a = None \<or> time_Parse L layout b = None)
            \<longrightarrow> keyTies (ms1\<lparr>ms_data := rows\<rparr>) k (rows ! i) (rows ! j) \<and>
                (Suc k = length names \<and>
                 (\<forall>m < k. keyTies (ms1\<lparr>ms_data := rows\<rparr>) m (rows ! i) (rows ! j))
                 \<longrightarrow> snd (Less (ms1\<lparr>ms_data := rows\<rparr>) i j) = Inr False \<and>
                     snd (Less (ms1\<lparr>ms_data := rows\<rparr>) j i) = Inr False)"
    by blast
  show ?thesis
    apply (rule exI [of _ "lessDateTime L"])
    apply (intro conjI allI)
        apply (rule less)
       apply (rule ix)
      apply (rule sch)
     apply (rule cmp)
    apply (rule imp)
    done
qed

theorem C7_datetime_comparator_witness:
  "OrderBy stub_lib (TableSorter dated_schema) [''LABEL'', ''DATE'']
     = ([], Some \<lparr>ms_data = [], ms_less = [Some lessString, Some (lessDateTime stub_lib)],
                  ms_schema = dated_schema, ms_indexes = [1, 2]\<rparr>) \<and>
   lessDateTime stub_lib (GString ''bad'') (GString ''2013-11-29T13:00:02Z'') (dated_schema ! 2)
     = ([''could not convert string bad to date time''], Inr False) \<and>
   lessDateTime stub_lib (GString ''2013-11-29T13:00:02Z'') (GString ''bad'') (dated_schema ! 2)
     = ([''could not convert string bad to date time''], Inr False) \<and>
   lessDateTime stub_lib (GString ''2013'') (GString ''2013-11-29T13:00:02Z'') (dated_schema ! 2)
     = ([], Inr True) \<and>
   snd (Less \<lparr>ms_data = dated_rows, ms_less = [Some lessString, Some (lessDateTime stub_lib)],
              ms_schema = dated_schema, ms_indexes = [1, 2]\<rparr> 0 1) = Inr False \<and>
   snd (Less \<lparr>ms_data = dated_rows, ms_less = [Some lessString, Some (lessDateTime stub_lib)],
              ms_schema = dated_schema, ms_indexes = [1, 2]\<rparr> 1 0) = Inr False"
proof -
  let ?ms1 = "\<lparr>ms_data = [], ms_less = [Some lessString, Some (lessDateTime stub_lib)],
               ms_schema = dated_schema, ms_indexes = [1, 2]\<rparr>"
  let ?ms = "\<lparr>ms_data = dated_rows, ms_less = [Some lessString, Some (lessDateTime stub_lib)],
              ms_schema = dated_schema, ms_indexes = [1, 2]\<rparr>"
  let ?f = "dated_schema ! 2"
  have ob: "OrderBy stub_lib (TableSorter dated_schema) [''LABEL'', ''DATE''] = ([], Some ?ms1)"
    by (simp add: OrderBy_def TableSorter_def dated_schema_def lessForType_def
        TypeInt_def TypeString_def TypeFloat_def TypeDateTime_def)
  have ms: "?ms1\<lparr>ms_data := dated_rows\<rparr> = ?ms" by simp
  have k: "(1::nat) < length [''LABEL'', ''DATE'']" by simp
  have ff: "findField (ms_schema (TableSorter dated_schema)) ([''LABEL'', ''DATE''] ! 1) 0
      = Some (2, ?f)"
    by (simp add: TableSorter_def dated_schema_def)
  have ty: "FieldType ?f = TypeDateTime" by (simp add: dated_schema_def)
  have lay: "''2006-01-02T15:04:05Z''
      = (if FieldFormat ?f \<noteq> [] then FieldFormat ?f else ''2006-01-02T15:04:05Z'')"
    by (simp add: dated_schema_def)
  have rows: "0 < length dated_rows \<and> 1 < length dated_rows \<and>
      length (ms_schema (TableSorter dated_schema)) \<le> length (dated_rows ! 0) \<and>
      length (ms_schema (TableSorter dated_schema)) \<le> length (dated_rows ! 1) \<and>
      dated_rows ! 0 ! 2 = GString ''2013-11-29T13:00:02Z'' \<and>
      dated_rows ! 1 ! 2 = GString ''bad'' \<and>
      (time_Parse stub_lib ''2006-01-02T15:04:05Z'' ''2013-11-29T13:00:02Z'' = None \<or>
       time_Parse stub_lib ''2006-01-02T15:04:05Z'' ''bad'' = None)"
    by (simp add: dated_rows_def TableSorter_def dated_schema_def stub_lib_def)
  have before: "\<forall>m < (1::nat). keyTies ?ms m (dated_rows ! 0) (dated_rows ! 1)"
    by (simp add: dated_rows_def lessString_def)
  from C7_datetime_comparator [OF ob k ff ty lay, of 0 dated_rows 1
      "''2013-11-29T13:00:02Z''" "''bad''"]
  obtain lf where lf: "Some (lessDateTime stub_lib) = Some lf"
    and cmp: "\<forall>a b. lf (GString a) (GString b) ?f =
              (case time_Parse stub_lib ''2006-01-02T15:04:05Z'' a of
                 None \<Rightarrow> ([''could not convert string '' @ a @ '' to date time''], Inr False)
               | Some ta \<Rightarrow>
                   (case time_Parse stub_lib ''2006-01-02T15:04:05Z'' b of
                      None \<Rightarrow>
                        ([''could not convert string '' @ b @ '' to date time''], Inr False)
                    | Some tb \<Rightarrow> ([], Inr (ta < tb))))"
    and less: "snd (Less ?ms 0 1) = Inr False \<and> snd (Less ?ms 1 0) = Inr False"
    using rows before unfolding ms by auto
  from lf have "lf = lessDateTime stub_lib" by simp
  with cmp have
    "lessDateTime stub_lib (GString ''bad'') (GString ''2013-11-29T13:00:02Z'') ?f
       = ([''could not convert string bad to date time''], Inr False)"
    "lessDateTime stub_lib (GString ''2013-11-29T13:00:02Z'') (GString ''bad'') ?f
       = ([''could not convert string bad to date time''], Inr False)"
    "lessDateTime stub_lib (GString ''2013'') (GString ''2013-11-29T13:00:02Z'') ?f
       = ([], Inr True)"
    by (simp_all add: stub_lib_def)
  with ob less show ?thesis by simp
qed

section \<open>Adjusting field sizes\<close>

lemma getCellSize_FieldSize [simp]:
  "getCellSize L d (f\<lparr>FieldSize := x\<rparr>) = getCellSize L d f"
  by (cases d) (simp_all add: getCellSize_def cellText_def)

lemma columnMaxLen_ge: "columnMaxLen L rows i f m = Inr r \<Longrightarrow> m \<le> r"
proof (induction rows arbitrary: m)
  case Nil
  then show ?case by simp
next
  case (Cons row rows)
  from Cons.prems obtain c where
    "columnMaxLen L rows i f (if m < c then c else m) = Inr r"
    by (auto split: if_splits sum.splits)
  from Cons.IH [OF this] show ?case by (simp split: if_splits)
qed

lemma Max_set_cons_max: "Max (set (max a n # cs)) = max (a::int) (Max (set (n # cs)))"
  by (cases "cs = []") (simp_all add: max.assoc)

lemma Max_set_cons_cons: "Max (set (m # c # cs)) = Max (set (max (m::int) c # cs))"
  by (cases "cs = []") (simp_all add: max.assoc)

lemma if_less_max: "(if m < c then c else m) = max (m::int) c"
  by (simp add: max_def)

lemma columnMaxLen_cells:
  "columnMaxLen L rows i f m = Inr r \<Longrightarrow>
     \<exists>cs. length cs = length rows \<and>
          (\<forall>k < length rows. i < length (rows ! k) \<and>
              getCellSize L (rows ! k ! i) f = Inr (cs ! k)) \<and>
          r = Max (set (m # cs))"
proof (induction rows arbitrary: m)
  case Nil
  then show ?case by simp
next
  case (Cons row rows)
  from Cons.prems obtain c where i: "i < length row"
    and c: "getCellSize L (row ! i) f = Inr c"
    and rest: "columnMaxLen L rows i f (if m < c then c else m) = Inr r"
    by (auto split: if_splits sum.splits)
  from Cons.IH [OF rest] obtain cs where cs: "length cs = length rows"
    "\<forall>k < length rows. i < length (rows ! k) \<and> getCellSize L (rows ! k ! i) f = Inr (cs ! k)"
    "r = Max (set ((if m < c then c else m) # cs))"
    by blast
  have "\<forall>k < length (row # rows). i < length ((row # rows) ! k) \<and>
          getCellSize L ((row # rows) ! k ! i) f = Inr ((c # cs) ! k)"
    using i c cs(2) by (auto simp: nth_Cons split: nat.splits)
  moreover have "r = Max (set (m # c # cs))"
    unfolding cs(3) if_less_max by (simp only: Max_set_cons_cons)
  ultimately show ?case using cs(1)
    by (intro exI [of _ "c # cs"]) simp
qed

lemma columnMaxLen_stable:
  "columnMaxLen L rows i f m = Inr r \<Longrightarrow> r \<le> m' \<Longrightarrow>
     columnMaxLen L rows i (f\<lparr>FieldSize := x\<rparr>) m' = Inr m'"
proof (induction rows arbitrary: m)
  case Nil
  then show ?case by simp
next
  case (Cons row rows)
  from Cons.prems obtain c where i: "i < length row"
    and c: "getCellSize L (row ! i) f = Inr c"
    and rest: "columnMaxLen L rows i f (if m < c then c else m) = Inr r"
    by (auto split: if_splits sum.splits)
  from columnMaxLen_ge [OF rest] Cons.prems(2) have "c \<le> m'"
    by (simp split: if_splits)
  with Cons.IH [OF rest Cons.prems(2)] i c show ?case by simp
qed

lemma adjustField_idem:
  assumes "adjustField L rows i f = Inr f'"
  shows "adjustField L rows i f' = Inr f'"
proof -
  let ?m0 = "if FieldSize f < int (length (FieldName f)) then int (length (FieldName f))
             else FieldSize f"
  from assms obtain r where r: "columnMaxLen L rows i f ?m0 = Inr r"
    and f': "f' = (if FieldSize f < r then f\<lparr>FieldSize := r + 1\<rparr> else f)"
    by (auto simp: adjustField_def Let_def split: sum.splits)
  show ?thesis
  proof (cases "FieldSize f < r")
    case False
    with f' assms show ?thesis by simp
  next
    case True
    from columnMaxLen_ge [OF r] have "int (length (FieldName f)) \<le> r"
      by (simp split: if_splits)
    moreover have "columnMaxLen L rows i (f\<lparr>FieldSize := r + 1\<rparr>) (r + 1) = Inr (r + 1)"
      by (rule columnMaxLen_stable [OF r]) simp
    ultimately show ?thesis using True f'
      by (simp add: adjustField_def)
  qed
qed

lemma adjustLoop_nth:
  "adjustLoop L rows fs i = Inr fs' \<Longrightarrow>
     length fs' = length fs \<and>
     (\<forall>k < length fs. adjustField L rows (i + k) (fs ! k) = Inr (fs' ! k))"
proof (induction fs arbitrary: i fs')
  case Nil
  then show ?case by simp
next
  case (Cons f fs)
  from Cons.prems obtain g gs where g: "adjustField L rows i f = Inr g"
    and gs: "adjustLoop L rows fs (Suc i) = Inr gs" and fs': "fs' = g # gs"
    by (auto split: sum.splits)
  from Cons.IH [OF gs] g fs' show ?case
    by (auto simp: nth_Cons split: nat.splits)
qed

lemma adjustLoop_idem:
  "adjustLoop L rows fs i = Inr fs' \<Longrightarrow> adjustLoop L rows fs' i = Inr fs'"
proof (induction fs arbitrary: i fs')
  case Nil
  then show ?case by simp
next
  case (Cons f fs)
  from Cons.prems obtain g gs where g: "adjustField L rows i f = Inr g"
    and gs: "adjustLoop L rows fs (Suc i) = Inr gs" and fs': "fs' = g # gs"
    by (auto split: sum.splits)
  from Cons.IH [OF gs] adjustField_idem [OF g] fs' show ?case by simp
qed

text \<open>
  C4. \<open>AdjustFieldSizes\<close> is idempotent: when it returns on a table, running it again on
  the adjusted table, whose rows are the same, changes nothing.
\<close>

theorem C4_adjust_idempotent:
  assumes "AdjustFieldSizes L t = Inr t'"
  shows "Data t' = Data t \<and> AdjustFieldSizes L t' = Inr t'"
proof -
  from assms obtain s where s: "adjustLoop L (Data t) (Schema t) 0 = Inr s"
    and t': "t' = t\<lparr>Schema := s\<rparr>"
    by (auto simp: AdjustFieldSizes_def split: sum.splits)
  from adjustLoop_idem [OF s] t' show ?thesis
    by (simp add: AdjustFieldSizes_def)
qed

text \<open>
  C8. For column \<open>i\<close> of a table on which \<open>AdjustFieldSizes\<close> returns, let \<open>M\<close> be the
  maximum of the length of the field name and the measured widths of the cells of the
  column. The new width is the old one when the old one is at least \<open>M\<close>, and \<open>M + 1\<close>
  otherwise; so it is never smaller than the old one. Nothing else in the schema changes.
\<close>

theorem C8_adjust_never_shrinks:
  assumes "AdjustFieldSizes L t = Inr t'" and "i < length (Schema t)"
  shows "length (Schema t') = length (Schema t) \<and>
         (\<exists>cs. length cs = length (Data t) \<and>
            (\<forall>k < length (Data t). i < length (Data t ! k) \<and>
                getCellSize L (Data t ! k ! i) (Schema t ! i) = Inr (cs ! k)) \<and>
            Schema t' ! i = (Schema t ! i)
              \<lparr>FieldSize :=
                 (if Max (set (int (length (FieldName (Schema t ! i))) # cs))
                       \<le> FieldSize (Schema t ! i)
                  then FieldSize (Schema t ! i)
                  else Max (set (int (length (FieldName (Schema t ! i))) # cs)) + 1)\<rparr>) \<and>
         FieldSize (Schema t ! i) \<le> FieldSize (Schema t' ! i)"
proof -
  let ?f = "Schema t ! i"
  let ?n = "int (length (FieldName ?f))"
  let ?m0 = "if FieldSize ?f < ?n then ?n else FieldSize ?f"
  from assms(1) obtain s where s: "adjustLoop L (Data t) (Schema t) 0 = Inr s"
    and t': "t' = t\<lparr>Schema := s\<rparr>"
    by (auto simp: AdjustFieldSizes_def split: sum.splits)
  from adjustLoop_nth [OF s] assms(2) have len: "length s = length (Schema t)"
    and af: "adjustField L (Data t) i ?f = Inr (s ! i)"
    by auto
  from af obtain r where r: "columnMaxLen L (Data t) i ?f ?m0 = Inr r"
    and si: "s ! i = (if FieldSize ?f < r then ?f\<lparr>FieldSize := r + 1\<rparr> else ?f)"
    by (auto simp: adjustField_def Let_def split: sum.splits)
  from columnMaxLen_cells [OF r] obtain cs where cs: "length cs = length (Data t)"
    "\<forall>k < length (Data t). i < length (Data t ! k) \<and>
        getCellSize L (Data t ! k ! i) ?f = Inr (cs ! k)"
    "r = Max (set (?m0 # cs))"
    by blast
  define M where "M = Max (set (?n # cs))"
  have "?m0 = max (FieldSize ?f) ?n"
    by (simp add: max_def)
  then have rM: "r = max (FieldSize ?f) M"
    unfolding M_def using cs(3) by (simp only: Max_set_cons_max)
  have new: "s ! i = ?f\<lparr>FieldSize := (if M \<le> FieldSize ?f then FieldSize ?f else M + 1)\<rparr>"
    using si rM by (simp add: max_def)
  show ?thesis
  proof (intro conjI)
    show "length (Schema t') = length (Schema t)" by (simp add: t' len)
    show "\<exists>cs. length cs = length (Data t) \<and>
            (\<forall>k < length (Data t). i < length (Data t ! k) \<and>
                getCellSize L (Data t ! k ! i) ?f = Inr (cs ! k)) \<and>
            Schema t' ! i = ?f
              \<lparr>FieldSize :=
                 (if Max (set (?n # cs)) \<le> FieldSize ?f then FieldSize ?f
                  else Max (set (?n # cs)) + 1)\<rparr>"
      using cs(1,2) new unfolding M_def by (intro exI [of _ cs]) (simp add: t')
    show "FieldSize ?f \<le> FieldSize (Schema t' ! i)"
      using new by (simp add: t')
  qed
qed

lemma Split_plain: "newline \<notin> set s \<Longrightarrow> Split s = [s]"
  by (induction s) auto

lemma Split_newline: "newline \<notin> set a \<Longrightarrow> Split (a @ newline # b) = a # Split b"
  by (induction a) auto

lemma FormatFloat_20_1_prec4: "FormatFloat_f 4 False 5657647031884186 (- 48) = ''20.1000''"
  by (simp add: FormatFloat_f_def round_half_even_def fixed_digits_def show_nat.simps
      digit_char_def Let_def)

lemma adjust_rows_sizes:
  "getCellSize stub_lib (GInt 4) (adjust_schema ! 0) = Inr 1"
  "getCellSize stub_lib (GInt 6) (adjust_schema ! 0) = Inr 1"
  "getCellSize stub_lib (GString ''12345'') (adjust_schema ! 1) = Inr 5"
  "getCellSize stub_lib (GString (''123456'' @ [newline] @ ''6789'')) (adjust_schema ! 1) = Inr 6"
  "getCellSize stub_lib (GFloat float_20_1) (adjust_schema ! 2) = Inr 7"
  "getCellSize stub_lib (GString ''tes'') (adjust_schema ! 3) = Inr 3"
  "getCellSize stub_lib (GString ''t'') (adjust_schema ! 3) = Inr 1"
  by (simp_all add: getCellSize_def cellText_def adjust_schema_def TypeInt_def TypeString_def
      TypeFloat_def show_int_def show_nat.simps digit_char_def decolorize_plain ESC_def
      newline_def Split_plain sprintf_prec_f_def float_20_1_def fmt_num_ok_def
      FormatFloat_20_1_prec4)

lemma adjust_fixture:
  "AdjustFieldSizes stub_lib \<lparr>Data = adjust_rows, Schema = adjust_schema\<rparr>
     = Inr \<lparr>Data = adjust_rows, Schema = adjusted_schema\<rparr>"
  using adjust_rows_sizes
  by (simp add: AdjustFieldSizes_def adjustField_def adjust_rows_def adjust_schema_def
      adjusted_schema_def)

theorem C4_adjust_idempotent_witness:
  "AdjustFieldSizes stub_lib \<lparr>Data = adjust_rows, Schema = adjust_schema\<rparr>
     = Inr \<lparr>Data = adjust_rows, Schema = adjusted_schema\<rparr> \<and>
   AdjustFieldSizes stub_lib \<lparr>Data = adjust_rows, Schema = adjusted_schema\<rparr>
     = Inr \<lparr>Data = adjust_rows, Schema = adjusted_schema\<rparr>"
  using C4_adjust_idempotent [OF adjust_fixture] adjust_fixture by simp

theorem C8_adjust_never_shrinks_witness:
  "FieldSize (adjust_schema ! 1) = 5 \<and> FieldSize (adjusted_schema ! 1) = 7 \<and>
   FieldSize (adjust_schema ! 1) \<le> FieldSize (adjusted_schema ! 1)"
proof -
  have "(1::nat) < length (Schema \<lparr>Data = adjust_rows, Schema = adjust_schema\<rparr>)"
    by (simp add: adjust_schema_def)
  from C8_adjust_never_shrinks [OF adjust_fixture this]
  have "FieldSize (adjust_schema ! 1) \<le> FieldSize (adjusted_schema ! 1)"
    by simp
  then show ?thesis by (simp add: adjust_schema_def adjusted_schema_def)
qed

section \<open>When rendering returns\<close>

lemma length_fillCell: "length (fillCell h cell) = max (length cell) (nat h)"
  by (simp add: fillCell_def Let_def)

lemma rowLine_ok:
  "\<forall>cell \<in> set cells. y < length cell \<Longrightarrow> \<exists>line. rowLine cells y = Inr line"
  by (induction cells) auto

lemma rowLines_ok:
  "\<forall>y \<in> set ys. \<forall>cell \<in> set cells. y < length cell \<Longrightarrow> \<exists>s. rowLines cells ys h = Inr s"
proof (induction ys)
  case Nil
  then show ?case by simp
next
  case (Cons y ys)
  then obtain line s where "rowLine cells y = Inr line" "rowLines cells ys h = Inr s"
    using rowLine_ok [of cells y] by auto
  then show ?case by simp
qed

lemma getTableRow_ok:
  assumes "formatCells L row schema 0 [] 1 = Inr (rowStr, h)"
  shows "\<exists>s. getTableRow L row schema = Inr s"
proof -
  have "\<forall>y \<in> set [0 ..< nat h]. \<forall>cell \<in> set (map (fillCell h) rowStr). y < length cell"
    by (auto simp: length_fillCell)
  from rowLines_ok [OF this] assms show ?thesis
    by (simp add: getTableRow_def)
qed

lemma formatCell_ok:
  assumes "i < length row" and "cellText L (row ! i) f = Inr s" and "FieldType f' = FieldType f"
  shows "\<exists>c h'. formatCell L row i f' h = Inr (c, h')"
  using assms by (cases "row ! i") (auto simp: formatCell_def cellText_def Let_def split: if_splits)

lemma formatCells_ok:
  "\<forall>k < length fs. i + k < length row \<and> (\<exists>s. cellText L (row ! (i + k)) (fs ! k) = Inr s)
     \<Longrightarrow> \<exists>rowStr h'. formatCells L row fs i acc h = Inr (rowStr, h')"
proof (induction fs arbitrary: i acc h)
  case Nil
  then show ?case by simp
next
  case (Cons f fs)
  from Cons.prems have "i < length row" "\<exists>s. cellText L (row ! i) f = Inr s"
    by force+
  then obtain c h' where c: "formatCell L row i f h = Inr (c, h')"
    using formatCell_ok [of i row L f _ f h] by blast
  have "\<forall>k < length fs. Suc i + k < length row \<and>
          (\<exists>s. cellText L (row ! (Suc i + k)) (fs ! k) = Inr s)"
    using Cons.prems by force
  from Cons.IH [OF this] c show ?case by simp
qed

lemma getTableHeader_ok: "\<exists>hdr. getTableHeader L schema = Inr hdr"
proof -
  let ?row = "map (\<lambda>field. GString (FieldName field)) schema"
  let ?sch = "map (\<lambda>field. \<lparr>FieldName = [], FieldType = TypeString, FieldSize = FieldSize field,
                      FieldPrecision = 0, FieldFormat = []\<rparr>) schema"
  have "\<forall>k < length ?sch. 0 + k < length ?row \<and>
          (\<exists>s. cellText L (?row ! (0 + k)) (?sch ! k) = Inr s)"
    by (simp add: cellText_def TypeString_def TypeInt_def)
  from formatCells_ok [OF this] obtain rowStr h where
    "formatCells L ?row ?sch 0 [] 1 = Inr (rowStr, h)" by blast
  from getTableRow_ok [OF this] show ?thesis by (simp add: getTableHeader_def)
qed

lemma adjustLoop_no_rows: "\<exists>s. adjustLoop L [] fs i = Inr s"
proof (induction fs arbitrary: i)
  case Nil
  then show ?case by simp
next
  case (Cons f fs)
  obtain g where g: "adjustField L [] i f = Inr g"
    by (simp add: adjustField_def Let_def)
  from Cons [of "Suc i"] obtain gs where "adjustLoop L [] fs (Suc i) = Inr gs" by blast
  with g show ?case by simp
qed

lemma show_int_0: "show_int 0 = ''0''"
  unfolding show_int_def by (subst show_nat.simps) (simp add: digit_char_def)

text \<open>
  C10. A table without rows, rendered as plain text, never takes the folding branch, so
  the first row is not read (\<open>getRowSize\<close> on no rows would panic unless the schema is empty).
  Rendering returns: the caption line if there is one, the border, the header, the border
  twice, and the footer \<open>Total: 0\<close> with the label.
\<close>

theorem C10_empty_table:
  assumes "Data t = []"
  shows "\<exists>t' hdr. AdjustFieldSizes L t = Inr t' \<and> Data t' = [] \<and>
           getTableHeader L (Schema t') = Inr hdr \<and>
           getRowSize L (Data t') (Schema t')
             = (if Schema t' = [] then Inr 0 else Inl IndexPanic) \<and>
           RenderTableFoldable L t tableName topLine [] foldAtLength =
             Inr ((if topLine \<noteq> [] then topLine @ [newline] else [])
                  @ getTableDelimiter (Schema t') @ [newline]
                  @ hdr @ [newline]
                  @ getTableDelimiter (Schema t') @ [newline]
                  @ getTableDelimiter (Schema t') @ [newline]
                  @ ''Total: 0 '' @ tableName @ [newline, newline], t')"
proof -
  from adjustLoop_no_rows obtain s where s: "adjustLoop L [] (Schema t) 0 = Inr s" by blast
  define t' where "t' = t\<lparr>Schema := s\<rparr>"
  have adj: "AdjustFieldSizes L t = Inr t'"
    by (simp add: AdjustFieldSizes_def assms s t'_def)
  have d: "Data t' = []" by (simp add: t'_def assms)
  from getTableHeader_ok obtain hdr where hdr: "getTableHeader L (Schema t') = Inr hdr" by blast
  have rs: "getRowSize L (Data t') (Schema t') = (if Schema t' = [] then Inr 0 else Inl IndexPanic)"
    by (cases "Schema t'") (simp_all add: getRowSize_def d)
  have "RenderTableFoldable L t tableName topLine [] foldAtLength =
             Inr ((if topLine \<noteq> [] then topLine @ [newline] else [])
                  @ getTableDelimiter (Schema t') @ [newline]
                  @ hdr @ [newline]
                  @ getTableDelimiter (Schema t') @ [newline]
                  @ getTableDelimiter (Schema t') @ [newline]
                  @ ''Total: 0 '' @ tableName @ [newline, newline], t')"
    by (simp add: RenderTableFoldable_def renderText_def adj d hdr getTableAsString_def
        footer_def show_int_0)
  with adj d hdr rs show ?thesis by blast
qed

lemma scenario_header:
  "getTableHeader L scenario_schema = Inr ''| ID    | LABEL               | INST. |''"
proof -
  have pads: "pad ''ID'' 6 = ''ID    ''" "pad ''LABEL'' 20 = ''LABEL               ''"
    "pad ''INST.'' 6 = ''INST. ''"
    by (simp_all add: pad_def int64_id emptyString_def spaces_simps decolorize_plain ESC_def)
  have fill: "fillCell 1 ['' ID    ''] = ['' ID    '']"
    "fillCell 1 ['' LABEL               ''] = ['' LABEL               '']"
    "fillCell 1 ['' INST. ''] = ['' INST. '']"
    by (simp_all add: fillCell_def decolorize_plain ESC_def sprintf_left_s_def fmt_num_ok_def
        RuneCountInString.simps spaces_simps)
  show ?thesis
    by (simp add: getTableHeader_def getTableRow_def scenario_schema_def formatCell_def
        TypeInt_def TypeString_def pads newline_def fill DefaultDelimiter_def)
qed

lemma scenario_delimiter:
  "getTableDelimiter scenario_schema = ''+-------+---------------------+-------+''"
  by (simp add: getTableDelimiter_def scenario_schema_def int64_id replicate_numeral)

theorem C10_empty_table_witness:
  "RenderTableFoldable stub_lib \<lparr>Data = [], Schema = scenario_schema\<rparr> ''test'' [] [] 300 =
     Inr (''+-------+---------------------+-------+'' @ [newline]
          @ ''| ID    | LABEL               | INST. |'' @ [newline]
          @ ''+-------+---------------------+-------+'' @ [newline]
          @ ''+-------+---------------------+-------+'' @ [newline]
          @ ''Total: 0 test'' @ [newline, newline],
          \<lparr>Data = [], Schema = scenario_schema\<rparr>)"
proof -
  let ?t = "\<lparr>Data = [], Schema = scenario_schema\<rparr>"
  have d: "Data ?t = []" by simp
  from C10_empty_table [OF d, of stub_lib "''test''" "[]" 300] obtain t' hdr where
    adj: "AdjustFieldSizes stub_lib ?t = Inr t'"
    and hdr: "getTableHeader stub_lib (Schema t') = Inr hdr"
    and out: "RenderTableFoldable stub_lib ?t ''test'' [] [] 300 =
       Inr (getTableDelimiter (Schema t') @ [newline] @ hdr @ [newline]
            @ getTableDelimiter (Schema t') @ [newline]
            @ getTableDelimiter (Schema t') @ [newline]
            @ ''Total: 0 '' @ ''test'' @ [newline, newline], t')"
    by auto
  have "AdjustFieldSizes stub_lib ?t = Inr ?t"
    by (simp add: AdjustFieldSizes_def adjustField_def scenario_schema_def)
  with adj have t': "t' = ?t" by simp
  with hdr have "hdr = ''| ID    | LABEL               | INST. |''"
    by (simp add: scenario_header)
  with out t' show ?thesis by (simp add: scenario_delimiter)
qed

section \<open>Tables with rows\<close>

lemma cellText_FieldSize [simp]: "cellText L d (f\<lparr>FieldSize := x\<rparr>) = cellText L d f"
  by (cases d) (simp_all add: cellText_def)

lemma getCellSize_cellText:
  "getCellSize L d f = Inr c \<Longrightarrow> \<exists>s. cellText L d f = Inr s"
  by (auto simp: getCellSize_def split: sum.splits)

lemma adjustField_shape:
  "adjustField L rows i f = Inr f' \<Longrightarrow> \<exists>x. FieldSize f \<le> x \<and> f' = f\<lparr>FieldSize := x\<rparr>"
proof -
  assume a: "adjustField L rows i f = Inr f'"
  then obtain r where "f' = (if FieldSize f < r then f\<lparr>FieldSize := r + 1\<rparr> else f)"
    by (auto simp: adjustField_def Let_def split: sum.splits)
  then show ?thesis
    by (cases "FieldSize f < r") (auto intro: exI [of _ "r + 1"] exI [of _ "FieldSize f"])
qed

lemma adjustField_cells:
  assumes "adjustField L rows i f = Inr f'" and "row \<in> set rows"
  shows "i < length row \<and> (\<exists>c. getCellSize L (row ! i) f = Inr c)"
proof -
  from assms(1) obtain m r where "columnMaxLen L rows i f m = Inr r"
    by (auto simp: adjustField_def Let_def split: sum.splits)
  from columnMaxLen_cells [OF this] obtain cs where
    "\<forall>k < length rows. i < length (rows ! k) \<and> getCellSize L (rows ! k ! i) f = Inr (cs ! k)"
    by blast
  moreover from assms(2) obtain k where "k < length rows" "rows ! k = row"
    by (auto simp: in_set_conv_nth)
  ultimately show ?thesis by auto
qed

lemma adjusted_table:
  assumes "AdjustFieldSizes L t = Inr t'"
  shows "Data t' = Data t" and "length (Schema t') = length (Schema t)"
    and "\<And>i. i < length (Schema t) \<Longrightarrow>
           \<exists>x. FieldSize (Schema t ! i) \<le> x \<and> Schema t' ! i = (Schema t ! i)\<lparr>FieldSize := x\<rparr>"
    and "\<And>i row. i < length (Schema t) \<Longrightarrow> row \<in> set (Data t) \<Longrightarrow>
           i < length row \<and> (\<exists>s. cellText L (row ! i) (Schema t' ! i) = Inr s)
             \<and> (\<exists>c. getCellSize L (row ! i) (Schema t' ! i) = Inr c)"
proof -
  from assms obtain s where s: "adjustLoop L (Data t) (Schema t) 0 = Inr s"
    and t': "t' = t\<lparr>Schema := s\<rparr>"
    by (auto simp: AdjustFieldSizes_def split: sum.splits)
  note nth = adjustLoop_nth [OF s]
  show "Data t' = Data t" by (simp add: t')
  show "length (Schema t') = length (Schema t)" using nth by (simp add: t')
  show sh: "\<exists>x. FieldSize (Schema t ! i) \<le> x \<and> Schema t' ! i = (Schema t ! i)\<lparr>FieldSize := x\<rparr>"
    if "i < length (Schema t)" for i
    using nth that adjustField_shape [of L "Data t" i "Schema t ! i" "s ! i"]
    by (auto simp: t')
  show "i < length row \<and> (\<exists>s. cellText L (row ! i) (Schema t' ! i) = Inr s)
          \<and> (\<exists>c. getCellSize L (row ! i) (Schema t' ! i) = Inr c)"
    if "i < length (Schema t)" "row \<in> set (Data t)" for i row
  proof -
    from nth that(1) have "adjustField L (Data t) i (Schema t ! i) = Inr (s ! i)" by auto
    from adjustField_cells [OF this that(2)] obtain c where
      i: "i < length row" and c: "getCellSize L (row ! i) (Schema t ! i) = Inr c" by blast
    from sh [OF that(1)] obtain x where x: "Schema t' ! i = (Schema t ! i)\<lparr>FieldSize := x\<rparr>"
      by blast
    from getCellSize_cellText [OF c] i c x show ?thesis by simp
  qed
qed

text \<open>Rendering changes nothing in a table but the widths, and only upwards.\<close>

lemma render_never_shrinks:
  assumes "RenderTableFoldable L t tableName topLine format foldAtLength = Inr (out, t')"
    and "i < length (Schema t)"
  shows "Data t' = Data t \<and> length (Schema t') = length (Schema t) \<and>
         (\<exists>x. FieldSize (Schema t ! i) \<le> x \<and> Schema t' ! i = (Schema t ! i)\<lparr>FieldSize := x\<rparr>)"
proof (cases "t' = t")
  case True
  then show ?thesis by (auto intro: exI [of _ "FieldSize (Schema t ! i)"])
next
  case False
  with assms(1) have "AdjustFieldSizes L t = Inr t'"
    by (auto simp: RenderTableFoldable_def renderText_def Let_def split: if_splits sum.splits)
  from adjusted_table(1-3) [OF this] assms(2) show ?thesis by simp
qed

lemma tableRows_ok:
  "\<forall>row \<in> set rows. \<exists>s. getTableRow L row schema = Inr s
     \<Longrightarrow> \<exists>rs. tableRows L rows schema = Inr rs \<and> length rs = length rows"
proof (induction rows)
  case Nil
  then show ?case by simp
next
  case (Cons row rows)
  then obtain s rs where "getTableRow L row schema = Inr s"
    "tableRows L rows schema = Inr rs" "length rs = length rows"
    by auto
  then show ?case by simp
qed

lemma getTableRow_fits:
  assumes "\<forall>k < length schema. k < length row \<and> (\<exists>s. cellText L (row ! k) (schema ! k) = Inr s)"
  shows "\<exists>s. getTableRow L row schema = Inr s"
proof -
  from assms have "\<forall>k < length schema. 0 + k < length row \<and>
      (\<exists>s. cellText L (row ! (0 + k)) (schema ! k) = Inr s)" by simp
  from formatCells_ok [OF this] obtain rowStr h where
    "formatCells L row schema 0 [] 1 = Inr (rowStr, h)" by blast
  then show ?thesis by (rule getTableRow_ok)
qed

lemma getRowSize_loop_ok:
  "rows \<noteq> [] \<Longrightarrow>
   \<forall>k < length fs. i + k < length (rows ! 0) \<and>
      (\<exists>c. getCellSize L (rows ! 0 ! (i + k)) (fs ! k) = Inr c)
     \<Longrightarrow> \<exists>r. getRowSize_loop L rows fs i sz = Inr r"
proof (induction fs arbitrary: i sz)
  case Nil
  then show ?case by simp
next
  case (Cons f fs)
  from Cons.prems(2) obtain c where i: "i < length (rows ! 0)"
    and c: "getCellSize L (rows ! 0 ! i) f = Inr c"
    by force
  have "\<forall>k < length fs. Suc i + k < length (rows ! 0) \<and>
      (\<exists>c. getCellSize L (rows ! 0 ! (Suc i + k)) (fs ! k) = Inr c)"
    using Cons.prems(2) by force
  from Cons.IH [OF Cons.prems(1) this] i c Cons.prems(1) show ?case by simp
qed

lemma foldedRows_cases:
  "(\<exists>e. foldedRows L rows schema = Inl e \<and>
        (\<exists>row \<in> set rows. getTableAsYAMLString L [row] schema = Inl e)) \<or>
   (\<exists>cells. foldedRows L rows schema = Inr (map (\<lambda>c. [GString c]) cells) \<and>
        length cells = length rows \<and>
        (\<forall>k < length rows. getTableAsYAMLString L [rows ! k] schema = Inr (cells ! k)))"
proof (induction rows)
  case Nil
  then show ?case by simp
next
  case (Cons row rows)
  show ?case
  proof (cases "getTableAsYAMLString L [row] schema")
    case (Inl e)
    then show ?thesis by auto
  next
    case (Inr cell)
    from Cons show ?thesis
    proof
      assume "\<exists>e. foldedRows L rows schema = Inl e \<and>
        (\<exists>row \<in> set rows. getTableAsYAMLString L [row] schema = Inl e)"
      with Inr show ?thesis by auto
    next
      assume "\<exists>cells. foldedRows L rows schema = Inr (map (\<lambda>c. [GString c]) cells) \<and>
        length cells = length rows \<and>
        (\<forall>k < length rows. getTableAsYAMLString L [rows ! k] schema = Inr (cells ! k))"
      then obtain cells where c: "foldedRows L rows schema = Inr (map (\<lambda>c. [GString c]) cells)"
        "length cells = length rows"
        "\<forall>k < length rows. getTableAsYAMLString L [rows ! k] schema = Inr (cells ! k)"
        by blast
      have "\<forall>k < length (row # rows).
              getTableAsYAMLString L [(row # rows) ! k] schema = Inr ((cell # cells) ! k)"
        using c(3) Inr by (auto simp: nth_Cons split: nat.splits)
      with c(1,2) Inr have "foldedRows L (row # rows) schema
            = Inr (map (\<lambda>c. [GString c]) (cell # cells)) \<and>
          length (cell # cells) = length (row # rows) \<and>
          (\<forall>k < length (row # rows).
              getTableAsYAMLString L [(row # rows) ! k] schema = Inr ((cell # cells) ! k))"
        by simp
      then show ?thesis by blast
    qed
  qed
qed

lemma folded_rows_ok:
  "\<exists>rs. tableRows L (map (\<lambda>c. [GString c]) cells) (valuesSchema w) = Inr rs \<and>
        length rs = length cells"
proof -
  have "\<forall>row \<in> set (map (\<lambda>c. [GString c]) cells).
          \<exists>s. getTableRow L row (valuesSchema w) = Inr s"
    by (auto intro!: getTableRow_fits
        simp: valuesSchema_def cellText_def TypeString_def TypeInt_def)
  from tableRows_ok [OF this] show ?thesis by simp
qed

lemma show_nat_digit: "n < 10 \<Longrightarrow> show_nat n = [digit_char n]"
  by (subst show_nat.simps) simp

lemma show_int_digit: "0 \<le> i \<Longrightarrow> i < 10 \<Longrightarrow> show_int i = [digit_char (nat i)]"
  by (simp add: show_int_def show_nat_digit)

lemma scenario_row_sizes:
  "getCellSize stub_lib (GInt 4) (scenario_schema ! 0) = Inr 1"
  "getCellSize stub_lib (GString ''str'') (scenario_schema ! 1) = Inr 3"
  "getCellSize stub_lib (GString ''xxxx'') (scenario_schema ! 1) = Inr 4"
  "getCellSize stub_lib (GFloat float_20_1) (scenario_schema ! 2) = Inr 5"
  by (simp_all add: getCellSize_def cellText_def scenario_schema_def TypeInt_def TypeString_def
      TypeFloat_def show_int_digit digit_char_def decolorize_plain ESC_def
      newline_def Split_plain sprintf_prec_f_def float_20_1_def fmt_num_ok_def
      FormatFloat_20_1)

lemma tie_rows_adjust:
  "AdjustFieldSizes stub_lib \<lparr>Data = tie_rows, Schema = scenario_schema\<rparr>
     = Inr \<lparr>Data = tie_rows, Schema = scenario_schema\<rparr>"
  using scenario_row_sizes
  by (simp add: AdjustFieldSizes_def adjustField_def tie_rows_def scenario_schema_def)

lemma tie_rows_size: "getRowSize stub_lib tie_rows scenario_schema = Inr 9"
  using scenario_row_sizes
  by (simp add: getRowSize_def tie_rows_def scenario_schema_def)

section \<open>Rows with a multi-line cell\<close>

lemma formatCell_height:
  assumes "formatCell L row i f 1 = Inr (ls, h1)" and "1 \<le> h"
  shows "formatCell L row i f h = Inr (ls, max h (int (length ls)))"
proof (cases "row ! i")
  case (GString v)
  with assms show ?thesis
    by (auto simp: formatCell_def Let_def max_def split: if_splits)
qed (use assms in \<open>auto simp: formatCell_def Let_def max_def split: if_splits\<close>)

lemma Split_abc: "Split multiline_abc = [''a'', ''bb'', ''ccc'']"
  by (simp add: multiline_abc_def newline_def)

lemma ReplaceAll_abc: "ReplaceAll_percent multiline_abc = multiline_abc"
  by (simp add: multiline_abc_def newline_def)

lemma formatCell_abc:
  assumes "j < length row" and "row ! j = GString multiline_abc"
    and "FieldType f = TypeString" and "h \<le> 3"
  shows "formatCell L row j f h
           = Inr (map (\<lambda>r. '' '' @ pad r (FieldSize f)) [''a'', ''bb'', ''ccc''], 3)"
  using assms
  by (auto simp: formatCell_def TypeString_def TypeInt_def ReplaceAll_abc Split_abc Let_def)

lemma formatCells_heights:
  "\<forall>k < length fs. formatCell L row (i + k) (fs ! k) (H k) = Inr (c k, H (Suc k))
     \<Longrightarrow> formatCells L row fs i acc (H 0) = Inr (acc @ map c [0 ..< length fs], H (length fs))"
proof (induction fs arbitrary: i acc H c)
  case Nil
  then show ?case by simp
next
  case (Cons f fs)
  from Cons.prems have first: "formatCell L row i f (H 0) = Inr (c 0, H (Suc 0))"
    by force
  have "\<forall>k < length fs. formatCell L row (Suc i + k) (fs ! k) ((H \<circ> Suc) k)
          = Inr ((c \<circ> Suc) k, (H \<circ> Suc) (Suc k))"
    using Cons.prems by force
  from Cons.IH [OF this, of "acc @ [c 0]"] first show ?case
    by (simp add: map_upt_Suc del: upt_Suc)
qed

lemma cellMaxWidth_single: "cellMaxWidth [t] 0 = int (length (decolorize t))"
  by (cases t) (simp_all add: decolorize.simps)

lemma fillCell_single:
  "fillCell 3 [t] =
     [sprintf_left_s (int (length (decolorize t))) t,
      spaces (length (decolorize t)), spaces (length (decolorize t))]"
proof -
  have "[Suc 0 ..< 3] = [1, 2]" by (simp add: upt_rec)
  then show ?thesis
    by (simp add: fillCell_def cellMaxWidth_single emptyString_def del: cellMaxWidth.simps)
qed

lemma fillCell_three:
  "fillCell 3 [a, b, c] = map (sprintf_left_s (cellMaxWidth [a, b, c] 0)) [a, b, c]"
  by (simp add: fillCell_def Let_def del: cellMaxWidth.simps)

lemma rowLine_concat:
  "\<forall>cell \<in> set cells. y < length cell \<Longrightarrow>
     rowLine cells y = Inr (concat (map (\<lambda>cell. DefaultDelimiter @ cell ! y) cells)
                            @ DefaultDelimiter)"
  by (induction cells) auto

lemma rowLines_three:
  assumes "\<forall>cell \<in> set cells. length cell = 3"
  shows "rowLines cells [0 ..< 3] 3 =
     Inr ((concat (map (\<lambda>cell. DefaultDelimiter @ cell ! 0) cells) @ DefaultDelimiter)
          @ [newline]
          @ (concat (map (\<lambda>cell. DefaultDelimiter @ cell ! 1) cells) @ DefaultDelimiter)
          @ [newline]
          @ (concat (map (\<lambda>cell. DefaultDelimiter @ cell ! 2) cells) @ DefaultDelimiter))"
proof -
  have u: "[0 ..< 3] = [0, 1, 2::nat]" by (simp add: upt_rec)
  have "rowLine cells y = Inr (concat (map (\<lambda>cell. DefaultDelimiter @ cell ! y) cells)
                            @ DefaultDelimiter)" if "y < 3" for y
    using assms that by (intro rowLine_concat) auto
  then show ?thesis unfolding u by simp
qed

lemma newline_spaces [simp]: "newline \<notin> set (spaces n)"
  by (simp add: spaces_def newline_def)

lemma newline_sprintf_left_s:
  "newline \<notin> set s \<Longrightarrow> newline \<notin> set (sprintf_left_s n s)"
  by (simp add: sprintf_left_s_def) (simp add: newline_def)

lemma Split_three:
  "newline \<notin> set a \<Longrightarrow> newline \<notin> set b \<Longrightarrow> newline \<notin> set c
     \<Longrightarrow> Split (a @ [newline] @ b @ [newline] @ c) = [a, b, c]"
  by (simp add: Split_newline Split_plain)

lemma pad_plain:
  "ESC \<notin> set r \<Longrightarrow> int (length r) \<le> w \<Longrightarrow> w < 2 ^ 63
     \<Longrightarrow> pad r w = r @ spaces (nat (w - int (length r)))"
  by (auto simp: pad_def Let_def decolorize_plain emptyString_def spaces_simps int64_id)

lemma abc_pads:
  assumes "5 \<le> w" and "w < 2 ^ 63"
  shows "pad ''a'' w = ''a'' @ spaces (nat (w - 1))"
    and "pad ''bb'' w = ''bb'' @ spaces (nat (w - 2))"
    and "pad ''ccc'' w = ''ccc'' @ spaces (nat (w - 3))"
  using assms by (simp_all add: pad_plain ESC_def)

lemma ESC_spaces [simp]: "ESC \<notin> set (spaces n)"
  by (simp add: spaces_def ESC_def)

lemma abc_maxWidth:
  assumes "5 \<le> w"
  shows "cellMaxWidth ['' a'' @ spaces (nat (w - 1)), '' bb'' @ spaces (nat (w - 2)),
            '' ccc'' @ spaces (nat (w - 3))] 0 = w + 1"
proof -
  have "ESC \<notin> set '' a''" by (simp add: ESC_def)
  then have "decolorize ('' a'' @ spaces (nat (w - 1))) = '' a'' @ spaces (nat (w - 1))"
    by (intro decolorize_plain) simp
  with assms show ?thesis by simp
qed


lemma newline_fillCell:
  "\<forall>s \<in> set ls. newline \<notin> set s \<Longrightarrow> \<forall>s \<in> set (fillCell h ls). newline \<notin> set s"
  by (auto simp: fillCell_def Let_def emptyString_def newline_sprintf_left_s)

lemma newline_cellsLine:
  "\<forall>i < n. newline \<notin> set (e i) \<Longrightarrow> newline \<notin> set (cellsLine n e)"
proof -
  have "newline \<noteq> CHR ''|''" by (simp add: newline_def)
  then show "\<forall>i < n. newline \<notin> set (e i) \<Longrightarrow> newline \<notin> set (cellsLine n e)"
    by (auto simp: cellsLine_def DefaultDelimiter_def)
qed

lemma cellsLine_cong: "(\<And>i. i < n \<Longrightarrow> e i = e' i) \<Longrightarrow> cellsLine n e = cellsLine n e'"
proof -
  assume "\<And>i. i < n \<Longrightarrow> e i = e' i"
  then have "map (\<lambda>i. DefaultDelimiter @ e i) [0 ..< n] = map (\<lambda>i. DefaultDelimiter @ e' i) [0 ..< n]"
    by (intro map_cong) auto
  then show ?thesis unfolding cellsLine_def
    by (rule arg_cong [where f = "\<lambda>xs. concat xs @ DefaultDelimiter"])
qed

lemma rowLines_cellsLine:
  assumes "\<forall>i < n. length (c i) = 3"
  shows "rowLines (map c [0 ..< n]) [0 ..< 3] 3 =
     Inr (cellsLine n (\<lambda>i. c i ! 0) @ [newline] @ cellsLine n (\<lambda>i. c i ! 1) @ [newline]
          @ cellsLine n (\<lambda>i. c i ! 2))"
proof -
  have "\<forall>cell \<in> set (map c [0 ..< n]). length cell = 3"
    using assms by auto
  from rowLines_three [OF this] show ?thesis
    by (simp add: cellsLine_def o_def)
qed

text \<open>
  C5, as amended. Take a row with the cell \<open>"a\nbb\nccc"\<close> in a Text column \<open>j\<close> of width
  \<open>w\<close>, at least 5 (and a Go \<open>int\<close>, so below \<open>2^63\<close>), in which no other cell has more
  than three lines and no line of another cell contains a line break. Then \<open>getTableRow\<close> returns exactly three physical lines. On
  the second and third line the multi-line cell shows \<open>bb\<close> and \<open>ccc\<close> padded to its
  column, and every other cell that has a single line is blank: as many spaces as the
  de-colorized length of that line.
\<close>

theorem C5_multiline_row:
  assumes "j < length schema" and "j < length row"
    and "FieldType (schema ! j) = TypeString"
    and "w = FieldSize (schema ! j)" and "5 \<le> w"
    and "row ! j = GString multiline_abc"
    and "\<forall>i < length schema. i \<noteq> j \<longrightarrow>
           (\<exists>h. formatCell L row i (schema ! i) 1 = Inr (cell i, h)) \<and>
           length (cell i) \<le> 3 \<and> (\<forall>s \<in> set (cell i). newline \<notin> set s)"
    and "w < 2 ^ 63"
  shows "\<exists>e0 e1 e2.
           getTableRow L row schema =
             Inr (cellsLine (length schema) e0 @ [newline] @ cellsLine (length schema) e1
                  @ [newline] @ cellsLine (length schema) e2) \<and>
           Split (cellsLine (length schema) e0 @ [newline] @ cellsLine (length schema) e1
                  @ [newline] @ cellsLine (length schema) e2)
             = [cellsLine (length schema) e0, cellsLine (length schema) e1,
                cellsLine (length schema) e2] \<and>
           e0 j = sprintf_left_s (w + 1) ('' a'' @ spaces (nat (w - 1))) \<and>
           e1 j = sprintf_left_s (w + 1) ('' bb'' @ spaces (nat (w - 2))) \<and>
           e2 j = sprintf_left_s (w + 1) ('' ccc'' @ spaces (nat (w - 3))) \<and>
           (\<forall>i < length schema. i \<noteq> j \<and> length (cell i) = 1 \<longrightarrow>
              e1 i = spaces (length (decolorize (cell i ! 0))) \<and>
              e2 i = spaces (length (decolorize (cell i ! 0))))"
proof -
  let ?n = "length schema"
  let ?abc = "['' a'' @ spaces (nat (w - 1)), '' bb'' @ spaces (nat (w - 2)),
              '' ccc'' @ spaces (nat (w - 3))]"
  define c where "c i = (if i = j then ?abc else cell i)" for i
  define H where "H k = fold (\<lambda>i h. max h (int (length (c i)))) [0 ..< k] 1" for k
  define g where "g y i = fillCell 3 (c i) ! y" for y i
  have cj: "c j = ?abc" by (simp only: c_def simp_thms if_True)
  have ci: "c i = cell i" if "i \<noteq> j" for i using that by (simp add: c_def)
  have H0: "H 0 = 1" by (simp add: H_def)
  have HS: "H (Suc k) = max (H k) (int (length (c k)))" for k by (simp add: H_def)
  have H1: "1 \<le> H k" for k by (induction k) (simp_all add: H0 HS)
  have lc: "length (c i) \<le> 3" if "i < ?n" for i
    using that assms(7) by (cases "i = j") (simp_all add: cj ci)
  have H3: "H k \<le> 3" if "k \<le> ?n" for k
    using that
  proof (induction k)
    case 0
    then show ?case by (simp add: H0)
  next
    case (Suc k)
    with lc [of k] show ?case by (simp add: HS)
  qed
  have Hj: "H k = 3" if "j < k" "k \<le> ?n" for k
    using that
  proof (induction k)
    case 0
    then show ?case by simp
  next
    case (Suc k)
    show ?case
    proof (cases "k = j")
      case True
      with H3 [of j] assms(1) show ?thesis by (simp add: HS cj)
    next
      case False
      with Suc have "H k = 3" by simp
      with lc [of k] Suc.prems show ?thesis by (simp add: HS)
    qed
  qed
  have "\<forall>k < ?n. formatCell L row (0 + k) (schema ! k) (H k) = Inr (c k, H (Suc k))"
  proof (intro allI impI)
    fix k assume k: "k < ?n"
    show "formatCell L row (0 + k) (schema ! k) (H k) = Inr (c k, H (Suc k))"
    proof (cases "k = j")
      case True
      have "H j \<le> 3" using H3 [of j] assms(1) by simp
      from formatCell_abc [OF assms(2) assms(6) assms(3) this, of L] assms(4,5,8)
      have "formatCell L row j (schema ! j) (H j) = Inr (?abc, 3)"
        by (simp add: abc_pads)
      moreover have "H (Suc j) = 3" using Hj [of "Suc j"] assms(1) by simp
      ultimately show ?thesis using True by (simp only: cj add_0)
    next
      case False
      with assms(7) k obtain h where "formatCell L row k (schema ! k) 1 = Inr (cell k, h)"
        by blast
      from formatCell_height [OF this H1 [of k]] False show ?thesis
        by (simp add: HS ci)
    qed
  qed
  from formatCells_heights [OF this, of "[]"] Hj [of ?n] assms(1)
  have cells: "formatCells L row schema 0 [] 1 = Inr (map c [0 ..< ?n], 3)"
    by (simp add: H0)
  have len: "\<forall>i < ?n. length (fillCell 3 (c i)) = 3"
    using lc by (simp add: length_fillCell max_def)
  have out: "getTableRow L row schema =
      Inr (cellsLine ?n (g 0) @ [newline] @ cellsLine ?n (g 1) @ [newline] @ cellsLine ?n (g 2))"
  proof -
    have g_fun: "g y = (\<lambda>i. fillCell 3 (c i) ! y)" for y
      by (rule ext) (simp add: g_def)
    show ?thesis
      unfolding getTableRow_def cells using rowLines_cellsLine [OF len]
      by (simp add: g_fun o_def)
  qed
  have fc: "fillCell 3 ?abc = map (sprintf_left_s (w + 1)) ?abc"
    by (simp only: fillCell_three abc_maxWidth [OF assms(5)])
  have gj: "g y j = sprintf_left_s (w + 1) (?abc ! y)" if "y < 3" for y
  proof -
    have "g y j = fillCell 3 ?abc ! y"
      by (simp only: g_def cj)
    also have "\<dots> = map (sprintf_left_s (w + 1)) ?abc ! y"
      by (simp only: fc)
    also have "\<dots> = sprintf_left_s (w + 1) (?abc ! y)"
      using that by (intro nth_map) simp
    finally show ?thesis .
  qed
  have single: "g 1 i = spaces (length (decolorize (cell i ! 0))) \<and>
      g 2 i = spaces (length (decolorize (cell i ! 0)))"
    if "i \<noteq> j" "length (cell i) = 1" for i
  proof -
    from that(2) have "cell i = [cell i ! 0]"
      by (cases "cell i") auto
    then have "fillCell 3 (c i) = fillCell 3 [cell i ! 0]"
      using that(1) by (simp add: ci)
    then show ?thesis by (simp add: g_def fillCell_single)
  qed
  have nl_c: "\<forall>s \<in> set (c i). newline \<notin> set s" if "i < ?n" for i
  proof (cases "i = j")
    case True
    have lit: "newline \<notin> set '' a''" "newline \<notin> set '' bb''" "newline \<notin> set '' ccc''"
      by (simp_all add: newline_def)
    have "newline \<notin> set ('' a'' @ spaces (nat (w - 1)))"
      "newline \<notin> set ('' bb'' @ spaces (nat (w - 2)))"
      "newline \<notin> set ('' ccc'' @ spaces (nat (w - 3)))"
      using lit by (simp_all only: set_append Un_iff newline_spaces simp_thms)
    then show ?thesis unfolding True cj by simp
  next
    case False
    with assms(7) that show ?thesis by (simp add: ci)
  qed
  have nl_g: "newline \<notin> set (g y i)" if "y < 3" "i < ?n" for y i
  proof -
    from len that have "g y i \<in> set (fillCell 3 (c i))"
      by (simp add: g_def)
    with newline_fillCell [OF nl_c [OF that(2)], of 3] show ?thesis by blast
  qed
  have split: "Split (cellsLine ?n (g 0) @ [newline] @ cellsLine ?n (g 1) @ [newline]
                       @ cellsLine ?n (g 2))
         = [cellsLine ?n (g 0), cellsLine ?n (g 1), cellsLine ?n (g 2)]"
    by (intro Split_three newline_cellsLine allI impI nl_g) simp_all
  have j0: "g 0 j = sprintf_left_s (w + 1) ('' a'' @ spaces (nat (w - 1)))"
    and j1: "g 1 j = sprintf_left_s (w + 1) ('' bb'' @ spaces (nat (w - 2)))"
    and j2: "g 2 j = sprintf_left_s (w + 1) ('' ccc'' @ spaces (nat (w - 3)))"
    using gj [of 0] gj [of 1] gj [of 2] by simp_all
  have others: "\<forall>i < ?n. i \<noteq> j \<and> length (cell i) = 1 \<longrightarrow>
              g 1 i = spaces (length (decolorize (cell i ! 0))) \<and>
              g 2 i = spaces (length (decolorize (cell i ! 0)))"
    using single by blast
  show ?thesis
    apply (rule exI [of _ "g 0"])
    apply (rule exI [of _ "g 1"])
    apply (rule exI [of _ "g 2"])
    apply (intro conjI out split j0 j1 j2 others)
    done
qed

lemma sprintf_left_s_ascii:
  "fmt_num_ok (nat \<bar>n\<bar>) \<Longrightarrow> RuneCountInString s = length s \<Longrightarrow>
     sprintf_left_s n s = s @ spaces (nat \<bar>n\<bar> - length s)"
  by (simp add: sprintf_left_s_def)

lemma pads5:
  "pad ''a'' 5 = ''a    ''" "pad ''bb'' 5 = ''bb   ''" "pad ''ccc'' 5 = ''ccc  ''"
  "pad ''1'' 5 = ''1    ''" "pad ''2'' 5 = ''2    ''" "pad ''3'' 5 = ''3    ''"
  "pad ''4'' 5 = ''4    ''" "pad ''te'' 4 = ''te  ''"
  by (simp_all add: pad_def int64_id emptyString_def spaces_simps decolorize_plain ESC_def)

lemma Split_four: "Split four_lines = [''1'', ''2'', ''3'', ''4'']"
  by (simp add: four_lines_def newline_def)

lemma ReplaceAll_four: "ReplaceAll_percent four_lines = four_lines"
  by (simp add: four_lines_def newline_def)

lemma fill_four:
  "fillCell 4 ['' a    '', '' bb   '', '' ccc  ''] = ['' a    '', '' bb   '', '' ccc  '', ''      '']"
  "fillCell 4 ['' 1    '', '' 2    '', '' 3    '', '' 4    '']
     = ['' 1    '', '' 2    '', '' 3    '', '' 4    '']"
  by (simp_all add: fillCell_def decolorize_plain ESC_def sprintf_left_s_def fmt_num_ok_def
      RuneCountInString.simps spaces_simps emptyString_def upt_rec)

text \<open>
  C5 as stated fails: next to a four-line cell, the row with the cell \<open>"a\nbb\nccc"\<close> in a
  Text column of width 5 has four physical lines.
\<close>

theorem C5_counterexample_four_lines:
  "getTableRow stub_lib [GString multiline_abc, GString four_lines] text_pair =
     Inr (''| a    | 1    |'' @ [newline] @ ''| bb   | 2    |'' @ [newline]
          @ ''| ccc  | 3    |'' @ [newline] @ ''|      | 4    |'') \<and>
   Split (''| a    | 1    |'' @ [newline] @ ''| bb   | 2    |'' @ [newline]
          @ ''| ccc  | 3    |'' @ [newline] @ ''|      | 4    |'')
     = [''| a    | 1    |'', ''| bb   | 2    |'', ''| ccc  | 3    |'', ''|      | 4    |'']"
proof
  have cells: "formatCells stub_lib [GString multiline_abc, GString four_lines] text_pair 0 [] 1
      = Inr ([['' a    '', '' bb   '', '' ccc  ''],
              ['' 1    '', '' 2    '', '' 3    '', '' 4    '']], 4)"
    by (simp add: text_pair_def formatCell_def TypeInt_def TypeString_def
        ReplaceAll_abc Split_abc ReplaceAll_four Split_four pads5)
  have u: "[0 ..< 4] = [0, 1, 2, 3::nat]" by (simp add: upt_rec)
  show "getTableRow stub_lib [GString multiline_abc, GString four_lines] text_pair =
     Inr (''| a    | 1    |'' @ [newline] @ ''| bb   | 2    |'' @ [newline]
          @ ''| ccc  | 3    |'' @ [newline] @ ''|      | 4    |'')"
    by (simp add: getTableRow_def cells fill_four u DefaultDelimiter_def)
  show "Split (''| a    | 1    |'' @ [newline] @ ''| bb   | 2    |'' @ [newline]
          @ ''| ccc  | 3    |'' @ [newline] @ ''|      | 4    |'')
     = [''| a    | 1    |'', ''| bb   | 2    |'', ''| ccc  | 3    |'', ''|      | 4    |'']"
    by (simp add: newline_def)
qed

theorem C5_multiline_row_witness:
  "\<exists>e0 e1 e2.
     getTableRow stub_lib multiline_row multiline_schema =
       Inr (cellsLine 3 e0 @ [newline] @ cellsLine 3 e1 @ [newline] @ cellsLine 3 e2) \<and>
     Split (cellsLine 3 e0 @ [newline] @ cellsLine 3 e1 @ [newline] @ cellsLine 3 e2)
       = [cellsLine 3 e0, cellsLine 3 e1, cellsLine 3 e2] \<and>
     e0 1 = '' a    '' \<and> e1 1 = '' bb   '' \<and> e2 1 = '' ccc  '' \<and>
     e1 0 = ''    '' \<and> e2 0 = ''    '' \<and> e1 2 = ''     '' \<and> e2 2 = ''     ''"
proof -
  define cell :: "nat \<Rightarrow> string list" where
    "cell i = (if i = 0 then ['' 4  ''] else ['' te  ''])" for i
  have int_cell: "sprintf_sp_left_d 3 4 = '' 4  ''"
    by (simp add: sprintf_sp_left_d_def fmt_num_ok_def show_int_digit digit_char_def
        spaces_simps)
  have f0: "formatCell stub_lib multiline_row 0 (multiline_schema ! 0) 1 = Inr (cell 0, 1)"
    by (simp add: formatCell_def multiline_row_def multiline_schema_def TypeInt_def int_cell
        cell_def)
  have f2: "formatCell stub_lib multiline_row 2 (multiline_schema ! 2) 1 = Inr (cell 2, 1)"
    by (simp add: formatCell_def multiline_row_def multiline_schema_def TypeInt_def
        TypeString_def pads5 newline_def cell_def)
  have others: "\<forall>i < length multiline_schema. i \<noteq> 1 \<longrightarrow>
           (\<exists>h. formatCell stub_lib multiline_row i (multiline_schema ! i) 1 = Inr (cell i, h)) \<and>
           length (cell i) \<le> 3 \<and> (\<forall>s \<in> set (cell i). newline \<notin> set s)"
  proof (intro allI impI)
    fix i assume "i < length multiline_schema" "i \<noteq> 1"
    then have "i = 0 \<or> i = 2" by (auto simp: multiline_schema_def)
    then show "(\<exists>h. formatCell stub_lib multiline_row i (multiline_schema ! i) 1 = Inr (cell i, h)) \<and>
           length (cell i) \<le> 3 \<and> (\<forall>s \<in> set (cell i). newline \<notin> set s)"
      using f0 f2 by (auto simp: cell_def newline_def)
  qed
  have hyps: "1 < length multiline_schema" "1 < length multiline_row"
    "FieldType (multiline_schema ! 1) = TypeString" "5 = FieldSize (multiline_schema ! 1)"
    "(5::int) \<le> 5" "multiline_row ! 1 = GString multiline_abc"
    by (simp_all add: multiline_schema_def multiline_row_def)
  have pad6: "sprintf_left_s 6 '' a    '' = '' a    ''" "sprintf_left_s 6 '' bb   '' = '' bb   ''"
    "sprintf_left_s 6 '' ccc  '' = '' ccc  ''"
    by (simp_all add: sprintf_left_s_def fmt_num_ok_def RuneCountInString.simps spaces_simps)
  have widths: "decolorize '' 4  '' = '' 4  ''" "decolorize '' te  '' = '' te  ''"
    by (simp_all add: decolorize_plain ESC_def)
  have n: "length multiline_schema = 3" by (simp add: multiline_schema_def)
  have bound: "(5::int) < 2 ^ 63" by simp
  from C5_multiline_row [OF hyps others bound] obtain e0 e1 e2 where
    out: "getTableRow stub_lib multiline_row multiline_schema =
       Inr (cellsLine 3 e0 @ [newline] @ cellsLine 3 e1 @ [newline] @ cellsLine 3 e2)"
    and sp: "Split (cellsLine 3 e0 @ [newline] @ cellsLine 3 e1 @ [newline] @ cellsLine 3 e2)
       = [cellsLine 3 e0, cellsLine 3 e1, cellsLine 3 e2]"
    and ej: "e0 1 = sprintf_left_s (5 + 1) ('' a'' @ spaces (nat (5 - 1)))"
      "e1 1 = sprintf_left_s (5 + 1) ('' bb'' @ spaces (nat (5 - 2)))"
      "e2 1 = sprintf_left_s (5 + 1) ('' ccc'' @ spaces (nat (5 - 3)))"
    and eo: "\<forall>i < 3. i \<noteq> 1 \<and> length (cell i) = 1 \<longrightarrow>
              e1 i = spaces (length (decolorize (cell i ! 0))) \<and>
              e2 i = spaces (length (decolorize (cell i ! 0)))"
    unfolding n by blast
  from ej have j: "e0 1 = '' a    ''" "e1 1 = '' bb   ''" "e2 1 = '' ccc  ''"
    by (simp_all add: spaces_simps pad6)
  from eo [rule_format, of 0] eo [rule_format, of 2]
  have o: "e1 0 = ''    ''" "e2 0 = ''    ''" "e1 2 = ''     ''" "e2 2 = ''     ''"
    by (simp_all add: cell_def widths spaces_simps)
  from out sp j o show ?thesis by blast
qed

section \<open>Colour sequences in a row\<close>

lemma decolorize_red_xy: "decolorize (red_xy @ s) = ''xy'' @ decolorize s"
  by (simp add: red_xy_def decolorize.simps csi_match_def csi_param_def ESC_def)

lemma decolorize_cons_plain: "ESC \<noteq> c \<Longrightarrow> decolorize (c # s) = c # decolorize s"
  by (simp add: decolorize.simps csi_match_no_ESC)

lemma split_plain_cell: "Split (ReplaceAll_percent plain_cell) = [''abcdefgh'', ''xy'']"
  by (simp add: plain_cell_def newline_def)

lemma split_coloured_cell: "Split (ReplaceAll_percent coloured_cell) = [''abcdefgh'', red_xy]"
  by (simp add: coloured_cell_def red_xy_def newline_def ESC_def)

lemma pad_red_xy: "pad red_xy 5 = red_xy @ ''   ''"
  using decolorize_red_xy [of "[]"]
  by (simp add: pad_def int64_id emptyString_def spaces_simps decolorize.simps)

lemma pad_plain_lines: "pad ''abcdefgh'' 5 = ''abcdefgh''" "pad ''xy'' 5 = ''xy   ''"
  by (simp_all add: pad_def int64_id emptyString_def spaces_simps decolorize_plain ESC_def)

lemma length_red_xy: "length red_xy = 11"
  by (simp add: red_xy_def)

lemma decolorize_red_line: "decolorize ('' '' @ red_xy @ ''   '') = '' xy   ''"
proof -
  have "ESC \<noteq> CHR '' ''" by (simp add: ESC_def)
  then have "decolorize ('' '' @ red_xy @ ''   '') = '' '' @ decolorize (red_xy @ ''   '')"
    by (simp add: decolorize_cons_plain)
  also have "\<dots> = '' xy'' @ decolorize ''   ''"
    by (simp add: decolorize_red_xy)
  also have "\<dots> = '' xy   ''"
    by (simp add: decolorize_plain ESC_def)
  finally show ?thesis .
qed

text \<open>
  C3 fails on the code. The loop that measures a cell compares the raw length of a line
  with the width found so far and only then stores the de-colorized length, and the final
  padding counts raw characters. With a first line wider than the column and a coloured
  second line, the width drops from 9 to 6: the second line of the row is three columns
  short of the first once the colour is stripped, while the same row without colour is
  aligned.
\<close>

theorem C3_colour_changes_alignment:
  "cellMaxWidth ['' abcdefgh'', '' '' @ red_xy @ ''   ''] 0 = 6 \<and>
   cellMaxWidth ['' abcdefgh'', '' xy   ''] 0 = 9 \<and>
   getTableRow L [GString coloured_cell] [narrow_field] =
     Inr (''| abcdefgh|'' @ [newline] @ ''| '' @ red_xy @ ''   |'') \<and>
   decolorize (''| '' @ red_xy @ ''   |'') = ''| xy   |'' \<and>
   getTableRow L [GString plain_cell] [narrow_field] =
     Inr (''| abcdefgh|'' @ [newline] @ ''| xy      |'')"
proof (intro conjI)
  have "ESC \<noteq> CHR ''|''" "ESC \<noteq> CHR '' ''" by (simp_all add: ESC_def)
  then have "decolorize (''| '' @ red_xy @ ''   |'') = ''| '' @ decolorize (red_xy @ ''   |'')"
    by (simp add: decolorize_cons_plain)
  also have "\<dots> = ''| xy'' @ decolorize ''   |''"
    by (simp add: decolorize_red_xy)
  also have "\<dots> = ''| xy   |''"
    by (simp add: decolorize_plain ESC_def)
  finally show "decolorize (''| '' @ red_xy @ ''   |'') = ''| xy   |''" .
  have dp: "decolorize '' abcdefgh'' = '' abcdefgh''" "decolorize '' xy   '' = '' xy   ''"
    by (simp_all add: decolorize_plain ESC_def)
  have dl: "decolorize (CHR '' '' # red_xy @ ''   '') = '' xy   ''"
    using decolorize_red_line by simp
  show mw: "cellMaxWidth ['' abcdefgh'', '' '' @ red_xy @ ''   ''] 0 = 6"
    by (simp add: dp dl length_red_xy)
  show mw': "cellMaxWidth ['' abcdefgh'', '' xy   ''] 0 = 9"
    by (simp add: dp)
  have rc: "sprintf_left_s 6 '' abcdefgh'' = '' abcdefgh''"
    "sprintf_left_s 9 '' abcdefgh'' = '' abcdefgh''"
    "sprintf_left_s 9 '' xy   '' = '' xy      ''"
    by (simp_all add: sprintf_left_s_def fmt_num_ok_def RuneCountInString.simps spaces_simps)
  have rc_red: "sprintf_left_s 6 ('' '' @ red_xy @ ''   '') = '' '' @ red_xy @ ''   ''"
    by (simp add: sprintf_left_s_def fmt_num_ok_def RuneCountInString.simps spaces_simps
        red_xy_def ESC_def)
  have u: "[0 ..< 2] = [0, 1::nat]" by (simp add: upt_rec)
  define rl where "rl = '' '' @ red_xy @ ''   ''"
  have mwl: "cellMaxWidth ['' abcdefgh'', rl] 0 = 6"
    unfolding rl_def by (rule mw)
  have rcl: "sprintf_left_s 6 rl = rl"
    unfolding rl_def by (rule rc_red)
  have cells: "formatCells L [GString coloured_cell] [narrow_field] 0 [] 1
      = Inr ([['' abcdefgh'', rl]], 2)"
    by (simp add: formatCell_def narrow_field_def TypeInt_def TypeString_def
        split_coloured_cell pad_plain_lines pad_red_xy rl_def)
  have fill: "fillCell 2 ['' abcdefgh'', rl] = ['' abcdefgh'', rl]"
    unfolding fillCell_def mwl by (simp add: rc rcl)
  have "getTableRow L [GString coloured_cell] [narrow_field] =
     Inr (''| abcdefgh|'' @ [newline] @ ''|'' @ rl @ ''|'')"
    unfolding getTableRow_def cells by (simp add: fill u DefaultDelimiter_def)
  then show "getTableRow L [GString coloured_cell] [narrow_field] =
     Inr (''| abcdefgh|'' @ [newline] @ ''| '' @ red_xy @ ''   |'')"
    by (simp add: rl_def)
  have cells': "formatCells L [GString plain_cell] [narrow_field] 0 [] 1
      = Inr ([['' abcdefgh'', '' xy   '']], 2)"
    by (simp add: formatCell_def narrow_field_def TypeInt_def TypeString_def
        split_plain_cell pad_plain_lines)
  have fill': "fillCell 2 ['' abcdefgh'', '' xy   ''] = ['' abcdefgh'', '' xy      '']"
    unfolding fillCell_def mw' by (simp add: rc)
  show "getTableRow L [GString plain_cell] [narrow_field] =
     Inr (''| abcdefgh|'' @ [newline] @ ''| xy      |'')"
    unfolding getTableRow_def cells' by (simp add: fill' u DefaultDelimiter_def)
qed

section \<open>Folding and the bordered layout\<close>

lemma Join_cons: "Join (x # ys) sep = (if ys = [] then x else x @ sep @ Join ys sep)"
  by (cases ys) simp_all

lemma Join_lines:
  "xs \<noteq> [] \<Longrightarrow> Join xs [newline] @ [newline] = concat (map (\<lambda>l. l @ [newline]) xs)"
  by (induction xs "[newline]" rule: Join.induct) simp_all

lemma tableRows_nth:
  "tableRows L rows schema = Inr rs \<Longrightarrow>
     length rs = length rows \<and>
     (\<forall>k < length rows. getTableRow L (rows ! k) schema = Inr (rs ! k))"
proof (induction rows arbitrary: rs)
  case Nil
  then show ?case by simp
next
  case (Cons row rows)
  from Cons.prems obtain r rs' where r: "getTableRow L row schema = Inr r"
    and rs': "tableRows L rows schema = Inr rs'" and rs: "rs = r # rs'"
    by (auto split: sum.splits)
  from Cons.IH [OF rs'] r rs show ?case
    by (auto simp: nth_Cons split: nat.splits)
qed

lemma Split_nonempty [simp]: "Split s \<noteq> []"
  by (induction s) (auto split: list.splits)

lemma Split_subset: "l \<in> set (Split s) \<Longrightarrow> set l \<subseteq> set s"
proof (induction s arbitrary: l)
  case Nil
  then show ?case by simp
next
  case (Cons c cs)
  show ?case
  proof (cases "c = newline")
    case True
    with Cons show ?thesis by auto
  next
    case False
    obtain l0 ls where sp: "Split cs = l0 # ls"
      by (cases "Split cs") simp_all
    with Cons.prems False have "l = c # l0 \<or> l \<in> set ls" by simp
    then show ?thesis
    proof
      assume "l = c # l0"
      moreover have "set l0 \<subseteq> set cs" using Cons.IH [of l0] sp by simp
      ultimately show ?thesis by auto
    next
      assume "l \<in> set ls"
      then have "set l \<subseteq> set cs" using Cons.IH [of l] sp by simp
      then show ?thesis by auto
    qed
  qed
qed

lemma Split_no_newline: "l \<in> set (Split s) \<Longrightarrow> newline \<notin> set l"
proof (induction s arbitrary: l)
  case Nil
  then show ?case by simp
next
  case (Cons c cs)
  obtain l0 ls where sp: "Split cs = l0 # ls"
    by (cases "Split cs") simp_all
  with Cons show ?case
    by (cases "c = newline") auto
qed

lemma ReplaceAll_plain: "CHR ''%'' \<notin> set s \<Longrightarrow> ReplaceAll_percent s = s"
  by (induction s) auto

lemma RuneCount_ascii:
  "\<forall>c \<in> set s. (of_char c :: nat) < 128 \<Longrightarrow> RuneCountInString s = length s"
proof (induction s)
  case Nil
  then show ?case by (simp add: RuneCountInString.simps)
next
  case (Cons c cs)
  then have "rune_size (c # cs) = 1" by (simp add: Let_def)
  with Cons show ?case
    by (subst RuneCountInString.simps) simp
qed

lemma cellMaxWidth_uniform:
  "\<forall>s \<in> set ss. decolorize s = s \<and> int (length s) = n \<Longrightarrow>
     cellMaxWidth ss m = (if ss = [] then m else max m n)"
  by (induction ss arbitrary: m) (auto simp: max_def)

lemma rowLines_single:
  "i \<le> length cell \<Longrightarrow>
     rowLines [cell] [i ..< length cell] (int (length cell))
       = Inr (Join (map (\<lambda>l. DefaultDelimiter @ l @ DefaultDelimiter) (drop i cell)) [newline])"
proof (induction "length cell - i" arbitrary: i)
  case 0
  then show ?case by simp
next
  case (Suc d)
  then have i: "i < length cell" by simp
  then have u: "[i ..< length cell] = i # [Suc i ..< length cell]"
    by (simp add: upt_conv_Cons)
  have dr: "drop i cell = cell ! i # drop (Suc i) cell"
    using i by (simp add: Cons_nth_drop_Suc)
  have ih: "rowLines [cell] [Suc i ..< length cell] (int (length cell))
       = Inr (Join (map (\<lambda>l. DefaultDelimiter @ l @ DefaultDelimiter) (drop (Suc i) cell))
               [newline])"
    using Suc by (intro Suc.hyps) auto
  have e: "(drop (Suc i) cell = []) = (\<not> int i < int (length cell) - 1)"
    using i by auto
  show ?case
    unfolding u dr using i by (simp add: ih Join_cons e)
qed


lemma fmt_num_ok_width: "0 \<le> w \<Longrightarrow> w \<le> 10000000 \<Longrightarrow> fmt_num_ok (nat \<bar>w + 1\<bar>)"
proof -
  assume "0 \<le> w" "w \<le> 10000000"
  then have "nat \<bar>w + 1\<bar> \<le> 10000001" by simp
  then have "nat \<bar>w + 1\<bar> div 10 \<le> 10000001 div 10" by (rule div_le_mono)
  then show ?thesis by (simp add: fmt_num_ok_def)
qed

lemma getTableRow_boxed:
  assumes ty: "FieldType f = TypeString" and w: "FieldSize f = w"
    and plain: "plainText c"
    and fits: "\<forall>l \<in> set (Split c). int (length l) \<le> w"
    and bound: "w \<le> 10000000"
  shows "getTableRow L [GString c] [f] = Inr (Join (map (boxedLine w) (Split c)) [newline])"
proof -
  define lines where "lines = Split c"
  define cell where "cell = map (\<lambda>r. '' '' @ r @ spaces (nat (w - int (length r)))) lines"
  have ne: "lines \<noteq> []" by (simp add: lines_def)
  then obtain l0 where "l0 \<in> set lines" by (cases lines) auto
  with fits have w0: "0 \<le> w" by (force simp: lines_def)
  have pl: "ESC \<notin> set r \<and> (\<forall>c \<in> set r. (of_char c :: nat) < 128)" if "r \<in> set lines" for r
    using Split_subset [of r c] that plain by (auto simp: lines_def plainText_def)
  have fit: "int (length r) \<le> w" if "r \<in> set lines" for r
    using that fits by (simp add: lines_def)
  have pads: "map (\<lambda>r. '' '' @ pad r (FieldSize f)) lines = cell"
    unfolding cell_def w
  proof (rule map_cong [OF refl])
    fix r assume r: "r \<in> set lines"
    have "w < 2 ^ 63" using bound by simp
    with pl [OF r] fit [OF r] show "'' '' @ pad r w = '' '' @ r @ spaces (nat (w - int (length r)))"
      by (simp add: pad_plain)
  qed
  have lc: "length cell = length lines" by (simp add: cell_def)
  have rep: "ReplaceAll_percent c = c"
    using plain by (intro ReplaceAll_plain) (auto simp: plainText_def)
  have "1 \<le> int (length (Split c))"
    by (cases "Split c") simp_all
  then have "formatCell L [GString c] 0 f 1
      = Inr (map (\<lambda>r. '' '' @ pad r (FieldSize f)) (Split c), int (length (Split c)))"
    by (auto simp: formatCell_def ty TypeString_def TypeInt_def rep Let_def)
  then have fc: "formatCell L [GString c] 0 f 1 = Inr (cell, int (length cell))"
    unfolding lines_def [symmetric] pads lc [symmetric] .
  have cells: "formatCells L [GString c] [f] 0 [] 1 = Inr ([cell], int (length cell))"
    by (simp add: fc)
  have uni: "decolorize s = s \<and> int (length s) = w + 1 \<and> RuneCountInString s = length s"
    if "s \<in> set cell" for s
  proof -
    from that obtain r where r: "r \<in> set lines"
      and s: "s = '' '' @ r @ spaces (nat (w - int (length r)))"
      by (auto simp: cell_def)
    have "ESC \<noteq> CHR '' ''" by (simp add: ESC_def)
    then have "ESC \<notin> set s" using pl [OF r] by (simp add: s)
    then have "decolorize s = s" by (rule decolorize_plain)
    moreover have "int (length s) = w + 1" using fit [OF r] by (simp add: s)
    moreover have "\<forall>c \<in> set s. (of_char c :: nat) < 128"
      using pl [OF r] by (auto simp: s spaces_def)
    then have "RuneCountInString s = length s" by (rule RuneCount_ascii)
    ultimately show ?thesis by simp
  qed
  have cne: "cell \<noteq> []" using ne by (simp add: cell_def)
  have mw: "cellMaxWidth cell 0 = w + 1"
    using cellMaxWidth_uniform [of cell "w + 1" 0] uni cne w0 by simp
  have fill: "fillCell (int (length cell)) cell = cell"
  proof -
    have "map (sprintf_left_s (w + 1)) cell = cell"
    proof (rule map_idI)
      fix s assume s: "s \<in> set cell"
      from uni [OF s] have "int (length s) = w + 1" by simp
      then have z: "nat \<bar>w + 1\<bar> - length s = 0" by linarith
      from uni [OF s] have rc: "RuneCountInString s = length s" by simp
      have "sprintf_left_s (w + 1) s = s @ spaces (nat \<bar>w + 1\<bar> - length s)"
        by (rule sprintf_left_s_ascii [OF fmt_num_ok_width [OF w0 bound] rc])
      also have "\<dots> = s" unfolding z spaces_def by simp
      finally show "sprintf_left_s (w + 1) s = s" .
    qed
    then show ?thesis by (simp add: fillCell_def mw)
  qed
  have box: "map (\<lambda>l. DefaultDelimiter @ l @ DefaultDelimiter) cell = map (boxedLine w) lines"
    unfolding cell_def map_map
  proof (rule map_cong [OF refl])
    fix r assume r: "r \<in> set lines"
    have "nat (w - int (length r)) = nat w - length r"
      by (simp add: nat_diff_distrib)
    then show "((\<lambda>l. DefaultDelimiter @ l @ DefaultDelimiter) \<circ>
        (\<lambda>r. '' '' @ r @ spaces (nat (w - int (length r))))) r = boxedLine w r"
      by (simp add: boxedLine_def DefaultDelimiter_def)
  qed
  have "getTableRow L [GString c] [f]
      = rowLines [cell] [0 ..< length cell] (int (length cell))"
    unfolding getTableRow_def cells by (simp add: fill)
  also have "\<dots> = Inr (Join (map (\<lambda>l. DefaultDelimiter @ l @ DefaultDelimiter) cell) [newline])"
    using rowLines_single [of 0 cell] by simp
  finally show ?thesis by (simp add: box lines_def)
qed


lemma delimiterLoop_border:
  "\<forall>f \<in> set fs. 0 \<le> FieldSize f \<and> FieldSize f \<le> 10000000 \<Longrightarrow>
     delimiterLoop fs row
       = row @ concat (map (\<lambda>f. replicate (nat (FieldSize f + 1)) CHR ''-'' @ ''+'') fs)"
proof (induction fs arbitrary: row)
  case Nil
  then show ?case by simp
next
  case (Cons f fs)
  then have "0 \<le> FieldSize f" "FieldSize f \<le> 10000000" by simp_all
  then have "int64 (FieldSize f + 1) = FieldSize f + 1"
    by (intro int64_id) simp_all
  with Cons show ?case by simp
qed

lemma getTableDelimiter_border:
  "\<forall>f \<in> set schema. 0 \<le> FieldSize f \<and> FieldSize f \<le> 10000000 \<Longrightarrow>
     getTableDelimiter schema = borderLine schema"
  by (simp add: getTableDelimiter_def borderLine_def delimiterLoop_border)

lemma plain_cell_line:
  assumes "plainLine name" and "int (length name) \<le> w" and "w \<le> 10000000"
  shows "pad name w = name @ spaces (nat w - length name)"
    and "fillCell 1 ['' '' @ name @ spaces (nat w - length name)]
           = ['' '' @ name @ spaces (nat w - length name)]"
proof -
  let ?s = "'' '' @ name @ spaces (nat w - length name)"
  have w0: "0 \<le> w" using assms(2) by simp
  have esc: "ESC \<notin> set name" and ascii: "\<forall>c \<in> set name. (of_char c :: nat) < 128"
    using assms(1) by (auto simp: plainLine_def plainText_def)
  have "w < 2 ^ 63" using assms(3) by simp
  with esc assms(2) have "pad name w = name @ spaces (nat (w - int (length name)))"
    by (rule pad_plain)
  moreover have "nat (w - int (length name)) = nat w - length name"
    by (simp add: nat_diff_distrib)
  ultimately show "pad name w = name @ spaces (nat w - length name)" by simp
  have "ESC \<noteq> CHR '' ''" by (simp add: ESC_def)
  with esc have "ESC \<notin> set ?s" by simp
  then have dec: "decolorize ?s = ?s" by (rule decolorize_plain)
  have ln: "length name \<le> nat w" using assms(2) by linarith
  then have ls: "length ?s = Suc (nat w)" by simp
  have len: "int (length ?s) = w + 1" unfolding ls using w0 by simp
  have "\<forall>c \<in> set ?s. (of_char c :: nat) < 128"
    using ascii by (auto simp: spaces_def)
  then have rc: "RuneCountInString ?s = length ?s" by (rule RuneCount_ascii)
  have a1: "nat \<bar>w + 1\<bar> = Suc (nat w)" using w0 by linarith
  have z: "nat \<bar>w + 1\<bar> - length ?s = 0" by (simp only: a1 ls diff_self_eq_0)
  have "sprintf_left_s (w + 1) ?s = ?s @ spaces (nat \<bar>w + 1\<bar> - length ?s)"
    by (rule sprintf_left_s_ascii [OF fmt_num_ok_width [OF w0 assms(3)] rc])
  also have "\<dots> = ?s" unfolding z by (simp add: spaces_def)
  finally have sp: "sprintf_left_s (w + 1) ?s = ?s" .
  have "fillCell 1 [?s] = [sprintf_left_s (int (length (decolorize ?s))) ?s]"
    by (simp add: fillCell_def cellMaxWidth_single del: cellMaxWidth.simps)
  then show "fillCell 1 [?s] = [?s]"
    unfolding dec len sp .
qed

lemma getTableHeader_plain:
  assumes "\<forall>f \<in> set schema. plainLine (FieldName f) \<and>
             int (length (FieldName f)) \<le> FieldSize f \<and> FieldSize f \<le> 10000000"
  shows "getTableHeader L schema = Inr (headerLine schema)"
proof -
  let ?n = "length schema"
  let ?names = "map (\<lambda>field. GString (FieldName field)) schema"
  let ?hs = "map (\<lambda>field. \<lparr>FieldName = [], FieldType = TypeString, FieldSize = FieldSize field,
                      FieldPrecision = 0, FieldFormat = []\<rparr>) schema"
  define c where "c i = ['' '' @ FieldName (schema ! i)
       @ spaces (nat (FieldSize (schema ! i)) - length (FieldName (schema ! i)))]" for i
  have ok: "plainLine (FieldName (schema ! k))"
      "int (length (FieldName (schema ! k))) \<le> FieldSize (schema ! k)"
      "FieldSize (schema ! k) \<le> 10000000" if "k < ?n" for k
    using assms that by simp_all
  have "\<forall>k < length ?hs. formatCell L ?names (0 + k) (?hs ! k) ((\<lambda>_. 1) k)
          = Inr (c k, (\<lambda>_. 1) (Suc k))"
  proof (intro allI impI)
    fix k assume "k < length ?hs"
    then have k: "k < ?n" by simp
    from ok(1) [OF k] have "CHR ''%'' \<notin> set (FieldName (schema ! k))"
      "newline \<notin> set (FieldName (schema ! k))"
      by (auto simp: plainLine_def plainText_def)
    then have "Split (ReplaceAll_percent (FieldName (schema ! k))) = [FieldName (schema ! k)]"
      by (simp add: ReplaceAll_plain Split_plain)
    with k plain_cell_line(1) [OF ok [OF k]]
    show "formatCell L ?names (0 + k) (?hs ! k) ((\<lambda>_. 1) k) = Inr (c k, (\<lambda>_. 1) (Suc k))"
      by (simp add: formatCell_def TypeString_def TypeInt_def c_def)
  qed
  from formatCells_heights [OF this, of "[]"]
  have cells: "formatCells L ?names ?hs 0 [] 1 = Inr (map c [0 ..< ?n], 1)"
    by simp
  have fill: "map (fillCell 1) (map c [0 ..< ?n]) = map c [0 ..< ?n]"
  proof -
    have "fillCell 1 (c k) = c k" if "k < ?n" for k
      unfolding c_def by (rule plain_cell_line(2) [OF ok [OF that]])
    then show ?thesis by simp
  qed
  have "rowLine (map c [0 ..< ?n]) 0
      = Inr (concat (map (\<lambda>cell. DefaultDelimiter @ cell ! 0) (map c [0 ..< ?n]))
             @ DefaultDelimiter)"
    by (rule rowLine_concat) (auto simp: c_def)
  then have line: "rowLine (map c [0 ..< ?n]) 0 = Inr (headerLine schema)"
    by (simp add: headerLine_def cellsLine_def o_def c_def)
  have "getTableHeader L schema
      = rowLines (map (fillCell 1) (map c [0 ..< ?n])) [0 ..< nat 1] 1"
    unfolding getTableHeader_def getTableRow_def cells by (simp only: sum.case prod.case)
  also have "\<dots> = rowLines (map c [0 ..< ?n]) [0] 1"
    by (simp only: fill) simp
  also have "\<dots> = Inr (headerLine schema)"
    by (simp add: line)
  finally show ?thesis .
qed

lemma headerLine_Values: "headerLine (valuesSchema w) = boxedLine w ''Values''"
  by (simp add: headerLine_def valuesSchema_def cellsLine_def boxedLine_def DefaultDelimiter_def)

lemma borderLine_Values:
  "borderLine (valuesSchema w) = ''+'' @ replicate (nat (w + 1)) CHR ''-'' @ ''+''"
  by (simp add: borderLine_def valuesSchema_def)

lemma maxLineWidth_Max:
  "maxLineWidth ls m = Max (set (m # map (\<lambda>l. int (length l)) ls))"
proof (induction ls arbitrary: m)
  case Nil
  then show ?case by simp
next
  case (Cons l ls)
  have "maxLineWidth (l # ls) m = maxLineWidth ls (max m (int (length l)))"
    by (simp add: max_def)
  also have "\<dots> = Max (set (max m (int (length l)) # map (\<lambda>l. int (length l)) ls))"
    by (rule Cons.IH)
  also have "\<dots> = Max (set (m # map (\<lambda>l. int (length l)) (l # ls)))"
    by (simp only: list.map Max_set_cons_cons)
  finally show ?case .
qed

lemma Max_set_append:
  "Max (set (a # xs @ ys)) = max (Max (set (a # xs))) (Max (set ((a::int) # ys)))"
proof -
  have "Max (set (a # xs) \<union> set (a # ys)) = max (Max (set (a # xs))) (Max (set (a # ys)))"
    by (rule Max_Un) simp_all
  moreover have "set (a # xs @ ys) = set (a # xs) \<union> set (a # ys)" by auto
  ultimately show ?thesis by (simp only:)
qed

lemma max_absorb_le: "(m::int) \<le> y \<Longrightarrow> max x y = max (max m x) y"
  by linarith

lemma Max_nested:
  assumes "0 \<le> (m::int)"
  shows "Max (set (max m (Max (set (0 # A))) # B)) = Max (set (m # A @ B))"
proof -
  have "Max (set (m # A)) = Max (set (max m 0 # A))" using assms by (simp add: max_def)
  also have "\<dots> = max m (Max (set (0 # A)))" by (rule Max_set_cons_max)
  finally have a: "Max (set (m # A)) = max m (Max (set (0 # A)))" .
  have b: "m \<le> Max (set (m # B))" by simp
  have "Max (set (max m (Max (set (0 # A))) # B)) = Max (set (max (Max (set (0 # A))) m # B))"
    by (simp only: max.commute [of m])
  also have "\<dots> = max (Max (set (0 # A))) (Max (set (m # B)))"
    by (rule Max_set_cons_max)
  also have "\<dots> = max (max m (Max (set (0 # A)))) (Max (set (m # B)))"
    by (rule max_absorb_le [OF b])
  also have "\<dots> = max (Max (set (m # A))) (Max (set (m # B)))"
    by (simp only: a)
  also have "\<dots> = Max (set (m # A @ B))" by (rule Max_set_append [symmetric])
  finally show ?thesis .
qed

lemma columnMaxLen_folded:
  assumes "FieldType f = TypeString"
  shows "0 \<le> m \<Longrightarrow>
     columnMaxLen L (map (\<lambda>c. [GString c]) cells) 0 f m
       = Inr (Max (set (m # map (\<lambda>l. int (length l))
                              (concat (map (\<lambda>c. Split (decolorize c)) cells)))))"
proof (induction cells arbitrary: m)
  case Nil
  then show ?case by simp
next
  case (Cons c cells)
  let ?A = "map (\<lambda>l. int (length l)) (Split (decolorize c))"
  let ?B = "map (\<lambda>l. int (length l)) (concat (map (\<lambda>c. Split (decolorize c)) cells))"
  have size: "getCellSize L (GString c) f = Inr (Max (set (0 # ?A)))"
    using assms by (simp add: getCellSize_def cellText_def TypeString_def TypeInt_def
        maxLineWidth_Max del: maxLineWidth.simps)
  have "0 \<le> max m (Max (set (0 # ?A)))" using Cons.prems by simp
  from Cons.IH [OF this]
  have "columnMaxLen L (map (\<lambda>c. [GString c]) (c # cells)) 0 f m
      = Inr (Max (set (max m (Max (set (0 # ?A))) # ?B)))"
    by (simp add: size if_less_max del: Max_insert set_simps)
  also have "Max (set (max m (Max (set (0 # ?A))) # ?B)) = Max (set (m # ?A @ ?B))"
    by (rule Max_nested [OF Cons.prems])
  finally show ?case by simp
qed

lemma adjust_folded_width:
  "AdjustFieldSizes L \<lparr>Data = map (\<lambda>c. [GString c]) cells, Schema = foldedSchema\<rparr>
     = Inr \<lparr>Data = map (\<lambda>c. [GString c]) cells, Schema = valuesSchema (foldedWidth cells)\<rparr>"
proof -
  let ?f = "\<lparr>FieldName = ''Values'', FieldType = TypeString, FieldSize = 5,
       FieldPrecision = 0, FieldFormat = []\<rparr>"
  let ?r = "Max (set (6 # map (\<lambda>l. int (length l))
                              (concat (map (\<lambda>c. Split (decolorize c)) cells))))"
  have r: "columnMaxLen L (map (\<lambda>c. [GString c]) cells) 0 ?f 6 = Inr ?r"
    by (rule columnMaxLen_folded) simp_all
  have "6 \<le> ?r" by simp
  then have "5 < ?r" by linarith
  with r show ?thesis
    by (simp add: AdjustFieldSizes_def foldedSchema_def adjustField_def valuesSchema_def
        foldedWidth_def del: Max_insert set_simps)
qed

lemma foldedWidth_ge: "7 \<le> foldedWidth cells"
proof -
  have "6 \<le> Max (set (6 # map (\<lambda>l. int (length l))
                              (concat (map (\<lambda>c. Split (decolorize c)) cells))))"
    by simp
  then show ?thesis unfolding foldedWidth_def by linarith
qed

lemma foldedWidth_fits:
  assumes "c \<in> set cells" and "l \<in> set (Split (decolorize c))"
  shows "int (length l) \<le> foldedWidth cells"
proof -
  let ?xs = "6 # map (\<lambda>l. int (length l)) (concat (map (\<lambda>c. Split (decolorize c)) cells))"
  from assms have "int (length l) \<in> set ?xs" by auto
  then have "int (length l) \<le> Max (set ?xs)" by (intro Max_ge) simp_all
  then show ?thesis unfolding foldedWidth_def by linarith
qed


lemma adjustField_name:
  assumes "adjustField L rows i f = Inr f'"
  shows "int (length (FieldName f')) \<le> FieldSize f'"
proof -
  let ?m0 = "if FieldSize f < int (length (FieldName f)) then int (length (FieldName f))
             else FieldSize f"
  from assms obtain r where r: "columnMaxLen L rows i f ?m0 = Inr r"
    and f': "f' = (if FieldSize f < r then f\<lparr>FieldSize := r + 1\<rparr> else f)"
    by (auto simp: adjustField_def Let_def split: sum.splits)
  from columnMaxLen_ge [OF r] have "int (length (FieldName f)) \<le> r"
    by (simp split: if_splits)
  then show ?thesis unfolding f' by (cases "FieldSize f < r") simp_all
qed

lemma adjusted_names:
  assumes "AdjustFieldSizes L t = Inr t'" and "f \<in> set (Schema t')"
  shows "int (length (FieldName f)) \<le> FieldSize f"
proof -
  from assms(1) obtain s where s: "adjustLoop L (Data t) (Schema t) 0 = Inr s"
    and t': "t' = t\<lparr>Schema := s\<rparr>"
    by (auto simp: AdjustFieldSizes_def split: sum.splits)
  from assms(2) t' obtain k where k: "k < length s" "s ! k = f"
    by (auto simp: in_set_conv_nth)
  from adjustLoop_nth [OF s] k
  have "adjustField L (Data t) (0 + k) (Schema t ! k) = Inr f" by auto
  then show ?thesis by (rule adjustField_name)
qed

lemma bordered_Join:
  "Join ([d, h, d] @ rs @ [d]) [newline] @ [newline] = bordered d h rs"
  unfolding bordered_def by (rule Join_lines) simp

lemma getTableAsString_bordered:
  "getTableHeader L schema = Inr hdr \<Longrightarrow> tableRows L rows schema = Inr rs \<Longrightarrow>
     getTableAsString L rows schema = Inr (bordered (getTableDelimiter schema) hdr rs)"
  by (simp only: getTableAsString_def sum.case bordered_Join)

lemma record_lines:
  "concat (map (\<lambda>l. l @ [newline]) (map (\<lambda>c. Join (map g (Split c)) [newline]) cells))
     = concat (map (\<lambda>l. l @ [newline]) (map g (concat (map Split cells))))"
proof (induction cells)
  case Nil
  then show ?case by simp
next
  case (Cons c cells)
  have "Join (map g (Split c)) [newline] @ [newline]
      = concat (map (\<lambda>l. l @ [newline]) (map g (Split c)))"
    by (rule Join_lines) simp
  with Cons show ?case by simp
qed

lemma getRowSize_loop_sum:
  "getRowSize_loop L rows fs i sz0 = Inr r \<Longrightarrow>
     \<exists>cs. length cs = length fs \<and>
          (\<forall>k < length fs. getCellSize L (rows ! 0 ! (i + k)) (fs ! k) = Inr (cs ! k)) \<and>
          r = sz0 + sum_list cs"
proof (induction fs arbitrary: i sz0)
  case Nil
  then show ?case by simp
next
  case (Cons f fs)
  from Cons.prems obtain c where c: "getCellSize L (rows ! 0 ! i) f = Inr c"
    and rest: "getRowSize_loop L rows fs (Suc i) (sz0 + c) = Inr r"
    by (auto split: if_splits sum.splits)
  from Cons.IH [OF rest] obtain cs where cs: "length cs = length fs"
    "\<forall>k < length fs. getCellSize L (rows ! 0 ! (Suc i + k)) (fs ! k) = Inr (cs ! k)"
    "r = sz0 + c + sum_list cs"
    by blast
  have "\<forall>k < length (f # fs).
          getCellSize L (rows ! 0 ! (i + k)) ((f # fs) ! k) = Inr ((c # cs) ! k)"
    using c cs(2) by (auto simp: nth_Cons split: nat.splits)
  with cs(1,3) show ?case
    by (intro exI [of _ "c # cs"]) simp
qed

text \<open>The parts of a folded table, written out: border, header, and the row of a plain record.\<close>

lemma folded_border:
  assumes "0 \<le> w" and "w \<le> 10000000"
  shows "getTableDelimiter (valuesSchema w) = ''+'' @ replicate (nat (w + 1)) CHR ''-'' @ ''+''"
proof -
  have "getTableDelimiter (valuesSchema w) = borderLine (valuesSchema w)"
    using assms by (intro getTableDelimiter_border) (simp add: valuesSchema_def)
  then show ?thesis by (simp only: borderLine_Values)
qed

lemma folded_header:
  assumes "6 \<le> w" and "w \<le> 10000000"
  shows "getTableHeader L (valuesSchema w) = Inr (boxedLine w ''Values'')"
proof -
  have "plainLine ''Values''"
    by (simp add: plainLine_def plainText_def ESC_def newline_def)
  then have "getTableHeader L (valuesSchema w) = Inr (headerLine (valuesSchema w))"
    using assms by (intro getTableHeader_plain) (simp add: valuesSchema_def)
  then show ?thesis by (simp add: headerLine_Values)
qed

lemma folded_row:
  assumes "c \<in> set cells" and "plainText c" and "foldedWidth cells \<le> 10000000"
  shows "getTableRow L [GString c] (valuesSchema (foldedWidth cells))
           = Inr (Join (map (boxedLine (foldedWidth cells)) (Split c)) [newline])"
proof -
  from assms(2) have "ESC \<notin> set c" by (auto simp: plainText_def)
  then have dec: "decolorize c = c" by (rule decolorize_plain)
  have fits: "\<forall>l \<in> set (Split c). int (length l) \<le> foldedWidth cells"
    using foldedWidth_fits [OF assms(1)] by (simp add: dec)
  show ?thesis
    unfolding valuesSchema_def
    by (rule getTableRow_boxed [OF _ _ assms(2) fits assms(3)]) simp_all
qed

lemma Join_boxed:
  "Join (map g (Split c)) [newline] @ [newline]
     = concat (map (\<lambda>l. g l @ [newline]) (Split c))"
proof -
  have "Join (map g (Split c)) [newline] @ [newline]
      = concat (map (\<lambda>l. l @ [newline]) (map g (Split c)))"
    by (rule Join_lines) simp
  then show ?thesis by (simp add: o_def)
qed

text \<open>The folded table of plain records, as \<open>getTableAsString\<close> assembles it.\<close>

lemma folded_plain:
  assumes "\<forall>c \<in> set cells. plainText c" and "foldedWidth cells \<le> 10000000"
    and "getTableHeader L (valuesSchema (foldedWidth cells)) = Inr hdr"
    and "length rs = length cells"
    and "\<forall>k < length cells.
           getTableRow L [GString (cells ! k)] (valuesSchema (foldedWidth cells)) = Inr (rs ! k)"
  shows "bordered (getTableDelimiter (valuesSchema (foldedWidth cells))) hdr rs
           = foldedTable cells"
proof -
  let ?w = "foldedWidth cells"
  have w7: "7 \<le> ?w" by (rule foldedWidth_ge)
  have d: "getTableDelimiter (valuesSchema ?w)
      = ''+'' @ replicate (nat (?w + 1)) CHR ''-'' @ ''+''"
    using w7 assms(2) by (intro folded_border) simp_all
  have "getTableHeader L (valuesSchema ?w) = Inr (boxedLine ?w ''Values'')"
    using w7 assms(2) by (intro folded_header) simp_all
  with assms(3) have h: "hdr = boxedLine ?w ''Values''" by simp
  have row: "rs ! k = Join (map (boxedLine ?w) (Split (cells ! k))) [newline]"
    if k: "k < length cells" for k
  proof -
    from k have c: "cells ! k \<in> set cells" by simp
    with assms(1) have "plainText (cells ! k)" by blast
    from folded_row [OF c this assms(2), of L] assms(5) k show ?thesis by simp
  qed
  have "rs = map (\<lambda>c. Join (map (boxedLine ?w) (Split c)) [newline]) cells"
    using assms(4) row by (intro nth_equalityI) simp_all
  then have "concat (map (\<lambda>l. l @ [newline]) rs)
      = concat (map (\<lambda>l. l @ [newline]) (map (boxedLine ?w) (concat (map Split cells))))"
    by (simp only: record_lines)
  then show ?thesis
    by (simp add: bordered_def foldedTable_def Let_def d h)
qed

text \<open>
  C1. Take a table with at least one row whose cells fit the schema (\<open>AdjustFieldSizes\<close>
  returns), rendered as plain text. The widths of the cells of the first row, one per
  column of the schema, are added up, and the sum is compared with the fold threshold.

  Above the threshold every row is serialized to one record, in the order of the rows;
  unless a serialization fails, and rendering returns that error, the output is the
  bordered table of the single Text column \<open>Values\<close> whose rows are the records: border,
  header, border, one row per record, border. The column is one character wider than the
  longest line of the records, and never narrower than 5. Unless the column is wider than
  ten million characters (beyond which \<open>fmt\<close> rejects a width), the border is a plus sign,
  one dash more than the width and a plus sign, the header is \<open>| Values\<close> padded to the
  width and closed by a delimiter, and the row of a record of plain text shows every line
  of the record padded in the same way; when all records are plain text the output is
  literally \<open>foldedTable\<close> between caption and footer.

  At or below the threshold the output is the bordered table of the rows under the
  adjusted schema: border, header, border, one row per original row, border; for plain
  field names the border is \<open>borderLine\<close> and the header \<open>headerLine\<close> of that schema.

  In both cases the output starts with the caption line, if any, and ends with the footer
  \<open>Total: N\<close> and the label, \<open>N\<close> being the number of original rows.
\<close>

theorem C1_fold_or_layout:
  assumes "Data t \<noteq> []" and "AdjustFieldSizes L t = Inr t'"
    and "caption = (if topLine \<noteq> [] then topLine @ [newline] else [])"
    and "closing = ''Total: '' @ show_int (int (length (Data t))) @ '' '' @ tableName
                   @ [newline, newline]"
  shows "\<exists>sz cs.
     getRowSize L (Data t) (Schema t') = Inr sz \<and>
     length cs = length (Schema t') \<and>
     (\<forall>i < length (Schema t'). getCellSize L (Data t ! 0 ! i) (Schema t' ! i) = Inr (cs ! i)) \<and>
     sz = sum_list cs \<and>
     (if foldAtLength < sz then
        (\<exists>e. RenderTableFoldable L t tableName topLine [] foldAtLength = Inl e \<and>
             (\<exists>row \<in> set (Data t). getTableAsYAMLString L [row] (Schema t') = Inl e)) \<or>
        (\<exists>cells w hdr rs.
             length cells = length (Data t) \<and>
             (\<forall>k < length (Data t).
                 getTableAsYAMLString L [Data t ! k] (Schema t') = Inr (cells ! k)) \<and>
             w = foldedWidth cells \<and> 5 \<le> w \<and>
             getTableHeader L (valuesSchema w) = Inr hdr \<and>
             length rs = length (Data t) \<and>
             (\<forall>k < length (Data t).
                 getTableRow L [GString (cells ! k)] (valuesSchema w) = Inr (rs ! k)) \<and>
             RenderTableFoldable L t tableName topLine [] foldAtLength =
               Inr (caption @ bordered (getTableDelimiter (valuesSchema w)) hdr rs @ closing, t') \<and>
             (w \<le> 10000000 \<longrightarrow>
                getTableDelimiter (valuesSchema w)
                  = ''+'' @ replicate (nat (w + 1)) CHR ''-'' @ ''+'' \<and>
                hdr = boxedLine w ''Values'' \<and>
                (\<forall>k < length (Data t). plainText (cells ! k) \<longrightarrow>
                   rs ! k @ [newline]
                     = concat (map (\<lambda>l. boxedLine w l @ [newline]) (Split (cells ! k)))) \<and>
                ((\<forall>c \<in> set cells. plainText c) \<longrightarrow>
                   RenderTableFoldable L t tableName topLine [] foldAtLength =
                     Inr (caption @ foldedTable cells @ closing, t'))))
      else
        (\<exists>hdr rs.
             getTableHeader L (Schema t') = Inr hdr \<and>
             length rs = length (Data t) \<and>
             (\<forall>k < length (Data t). getTableRow L (Data t ! k) (Schema t') = Inr (rs ! k)) \<and>
             RenderTableFoldable L t tableName topLine [] foldAtLength =
               Inr (caption @ bordered (getTableDelimiter (Schema t')) hdr rs @ closing, t') \<and>
             ((\<forall>f \<in> set (Schema t'). plainLine (FieldName f) \<and> FieldSize f \<le> 10000000) \<longrightarrow>
                RenderTableFoldable L t tableName topLine [] foldAtLength =
                  Inr (caption @ bordered (borderLine (Schema t')) (headerLine (Schema t')) rs
                         @ closing, t'))))"
proof -
  note adj = adjusted_table [OF assms(2)]
  have "Data t ! 0 \<in> set (Data t)" using assms(1) by (cases "Data t") auto
  with adj(4) have "\<forall>k < length (Schema t'). 0 + k < length (Data t ! 0) \<and>
      (\<exists>c. getCellSize L (Data t ! 0 ! (0 + k)) (Schema t' ! k) = Inr c)"
    by (simp add: adj(2))
  from getRowSize_loop_ok [OF assms(1) this] obtain sz where
    sz: "getRowSize L (Data t) (Schema t') = Inr sz"
    by (auto simp: getRowSize_def)
  from getRowSize_loop_sum [OF sz [unfolded getRowSize_def]] obtain cs where
    cs: "length cs = length (Schema t')"
    "\<forall>i < length (Schema t'). getCellSize L (Data t ! 0 ! i) (Schema t' ! i) = Inr (cs ! i)"
    "sz = sum_list cs"
    by auto
  have render: "RenderTableFoldable L t tableName topLine [] foldAtLength =
      (case (if foldAtLength < sz then getFoldedTableAsString L (Data t) (Schema t')
             else getTableAsString L (Data t) (Schema t')) of
         Inl e \<Rightarrow> Inl e
       | Inr s \<Rightarrow> Inr (caption @ s @ closing, t'))"
    using assms(1,2) sz
    by (simp add: RenderTableFoldable_def renderText_def adj(1) footer_def assms(3,4)
        split: sum.splits)
  show ?thesis
  proof (cases "foldAtLength < sz")
    case False
    have "\<forall>row \<in> set (Data t). \<exists>s. getTableRow L row (Schema t') = Inr s"
      using adj(4) by (auto intro!: getTableRow_fits simp: adj(2))
    from tableRows_ok [OF this] obtain rs where
      rs: "tableRows L (Data t) (Schema t') = Inr rs" by blast
    note nth = tableRows_nth [OF rs]
    from getTableHeader_ok obtain hdr where hdr: "getTableHeader L (Schema t') = Inr hdr"
      by blast
    have out: "RenderTableFoldable L t tableName topLine [] foldAtLength =
        Inr (caption @ bordered (getTableDelimiter (Schema t')) hdr rs @ closing, t')"
      using False by (simp add: render getTableAsString_bordered [OF hdr rs])
    have plain: "RenderTableFoldable L t tableName topLine [] foldAtLength =
        Inr (caption @ bordered (borderLine (Schema t')) (headerLine (Schema t')) rs
               @ closing, t')"
      if p: "\<forall>f \<in> set (Schema t'). plainLine (FieldName f) \<and> FieldSize f \<le> 10000000"
    proof -
      have names: "\<forall>f \<in> set (Schema t'). int (length (FieldName f)) \<le> FieldSize f"
        using adjusted_names [OF assms(2)] by blast
      have "getTableDelimiter (Schema t') = borderLine (Schema t')"
      proof (rule getTableDelimiter_border, rule ballI)
        fix f assume f: "f \<in> set (Schema t')"
        with names have "0 \<le> FieldSize f" by force
        with p f show "0 \<le> FieldSize f \<and> FieldSize f \<le> 10000000" by simp
      qed
      moreover have "getTableHeader L (Schema t') = Inr (headerLine (Schema t'))"
        using p names by (intro getTableHeader_plain) simp
      ultimately show ?thesis using out hdr by simp
    qed
    have ex: "\<exists>hdr rs.
             getTableHeader L (Schema t') = Inr hdr \<and>
             length rs = length (Data t) \<and>
             (\<forall>k < length (Data t). getTableRow L (Data t ! k) (Schema t') = Inr (rs ! k)) \<and>
             RenderTableFoldable L t tableName topLine [] foldAtLength =
               Inr (caption @ bordered (getTableDelimiter (Schema t')) hdr rs @ closing, t') \<and>
             ((\<forall>f \<in> set (Schema t'). plainLine (FieldName f) \<and> FieldSize f \<le> 10000000) \<longrightarrow>
                RenderTableFoldable L t tableName topLine [] foldAtLength =
                  Inr (caption @ bordered (borderLine (Schema t')) (headerLine (Schema t')) rs
                         @ closing, t'))"
      using hdr nth out plain by blast
    show ?thesis
      apply (intro exI [of _ sz] exI [of _ cs] conjI sz cs)
      apply (simp only: False if_False)
      apply (rule ex)
      done
  next
    case True
    from foldedRows_cases [of L "Data t" "Schema t'"] show ?thesis
    proof
      assume "\<exists>e. foldedRows L (Data t) (Schema t') = Inl e \<and>
        (\<exists>row \<in> set (Data t). getTableAsYAMLString L [row] (Schema t') = Inl e)"
      then obtain e where e: "foldedRows L (Data t) (Schema t') = Inl e"
        "\<exists>row \<in> set (Data t). getTableAsYAMLString L [row] (Schema t') = Inl e" by blast
      have r: "RenderTableFoldable L t tableName topLine [] foldAtLength = Inl e"
        using True by (simp add: render getFoldedTableAsString_def e(1))
      show ?thesis
        apply (intro exI [of _ sz] exI [of _ cs] conjI sz cs)
        apply (simp only: True if_True)
        apply (rule disjI1)
        apply (rule exI [of _ e])
        apply (rule conjI [OF r e(2)])
        done
    next
      assume "\<exists>cells. foldedRows L (Data t) (Schema t') = Inr (map (\<lambda>c. [GString c]) cells) \<and>
        length cells = length (Data t) \<and>
        (\<forall>k < length (Data t).
            getTableAsYAMLString L [Data t ! k] (Schema t') = Inr (cells ! k))"
      then obtain cells where
        c: "foldedRows L (Data t) (Schema t') = Inr (map (\<lambda>c. [GString c]) cells)"
        "length cells = length (Data t)"
        "\<forall>k < length (Data t).
            getTableAsYAMLString L [Data t ! k] (Schema t') = Inr (cells ! k)"
        by blast
      define w where "w = foldedWidth cells"
      have w7: "7 \<le> w" using foldedWidth_ge [of cells] by (simp add: w_def)
      then have w5: "5 \<le> w" by simp
      note aw = adjust_folded_width [of L cells, folded w_def]
      from folded_rows_ok [of L cells w] obtain rs where
        rs: "tableRows L (map (\<lambda>c. [GString c]) cells) (valuesSchema w) = Inr rs" by blast
      from tableRows_nth [OF rs] have len: "length rs = length (Data t)"
        and nth: "\<forall>k < length (Data t).
            getTableRow L [GString (cells ! k)] (valuesSchema w) = Inr (rs ! k)"
        by (simp_all add: c(2))
      from getTableHeader_ok obtain hdr where hdr: "getTableHeader L (valuesSchema w) = Inr hdr"
        by blast
      have out: "RenderTableFoldable L t tableName topLine [] foldAtLength =
          Inr (caption @ bordered (getTableDelimiter (valuesSchema w)) hdr rs @ closing, t')"
        using True
        by (simp add: render getFoldedTableAsString_def c(1) aw
            getTableAsString_bordered [OF hdr rs])
      have explicit: "getTableDelimiter (valuesSchema w)
                  = ''+'' @ replicate (nat (w + 1)) CHR ''-'' @ ''+'' \<and>
                hdr = boxedLine w ''Values'' \<and>
                (\<forall>k < length (Data t). plainText (cells ! k) \<longrightarrow>
                   rs ! k @ [newline]
                     = concat (map (\<lambda>l. boxedLine w l @ [newline]) (Split (cells ! k)))) \<and>
                ((\<forall>c \<in> set cells. plainText c) \<longrightarrow>
                   RenderTableFoldable L t tableName topLine [] foldAtLength =
                     Inr (caption @ foldedTable cells @ closing, t'))"
        if bound: "w \<le> 10000000"
      proof (intro conjI allI impI)
        show "getTableDelimiter (valuesSchema w)
            = ''+'' @ replicate (nat (w + 1)) CHR ''-'' @ ''+''"
          using w7 bound by (intro folded_border) simp_all
        have "getTableHeader L (valuesSchema w) = Inr (boxedLine w ''Values'')"
          using w7 bound by (intro folded_header) simp_all
        with hdr show "hdr = boxedLine w ''Values''" by simp
      next
        fix k assume k: "k < length (Data t)" and pl: "plainText (cells ! k)"
        from k have "cells ! k \<in> set cells" by (simp add: c(2))
        from folded_row [OF this pl bound [unfolded w_def], of L] nth k
        have "rs ! k = Join (map (boxedLine w) (Split (cells ! k))) [newline]"
          by (simp add: w_def)
        then show "rs ! k @ [newline]
            = concat (map (\<lambda>l. boxedLine w l @ [newline]) (Split (cells ! k)))"
          by (simp only: Join_boxed)
      next
        assume "\<forall>c \<in> set cells. plainText c"
        then have "bordered (getTableDelimiter (valuesSchema (foldedWidth cells))) hdr rs
            = foldedTable cells"
          using bound hdr len nth unfolding w_def c(2) [symmetric]
          by (intro folded_plain) simp_all
        with out show "RenderTableFoldable L t tableName topLine [] foldAtLength =
            Inr (caption @ foldedTable cells @ closing, t')"
          by (simp add: w_def)
      qed
      have ex: "\<exists>cells w hdr rs.
             length cells = length (Data t) \<and>
             (\<forall>k < length (Data t).
                 getTableAsYAMLString L [Data t ! k] (Schema t') = Inr (cells ! k)) \<and>
             w = foldedWidth cells \<and> 5 \<le> w \<and>
             getTableHeader L (valuesSchema w) = Inr hdr \<and>
             length rs = length (Data t) \<and>
             (\<forall>k < length (Data t).
                 getTableRow L [GString (cells ! k)] (valuesSchema w) = Inr (rs ! k)) \<and>
             RenderTableFoldable L t tableName topLine [] foldAtLength =
               Inr (caption @ bordered (getTableDelimiter (valuesSchema w)) hdr rs @ closing, t') \<and>
             (w \<le> 10000000 \<longrightarrow>
                getTableDelimiter (valuesSchema w)
                  = ''+'' @ replicate (nat (w + 1)) CHR ''-'' @ ''+'' \<and>
                hdr = boxedLine w ''Values'' \<and>
                (\<forall>k < length (Data t). plainText (cells ! k) \<longrightarrow>
                   rs ! k @ [newline]
                     = concat (map (\<lambda>l. boxedLine w l @ [newline]) (Split (cells ! k)))) \<and>
                ((\<forall>c \<in> set cells. plainText c) \<longrightarrow>
                   RenderTableFoldable L t tableName topLine [] foldAtLength =
                     Inr (caption @ foldedTable cells @ closing, t')))"
        apply (rule exI [of _ cells])
        apply (rule exI [of _ w])
        apply (rule exI [of _ hdr])
        apply (rule exI [of _ rs])
        apply (intro conjI c(2) c(3) w_def w5 hdr len nth out)
        apply (rule impI)
        apply (erule explicit)
        done
      show ?thesis
        apply (intro exI [of _ sz] exI [of _ cs] conjI sz cs)
        apply (simp only: True if_True)
        apply (rule disjI2)
        apply (rule ex)
        done
    qed
  qed
qed

lemma tie_rows_yaml:
  "getTableAsYAMLString stub_lib [tie_rows ! 0] scenario_schema = Inr (tie_records ! 0)"
  "getTableAsYAMLString stub_lib [tie_rows ! 1] scenario_schema = Inr (tie_records ! 1)"
  by (simp_all add: getTableAsYAMLString_def scenario_schema_def stub_lib_def tie_rows_def
      tie_records_def show_int_digit digit_char_def decolorize_plain ESC_def newline_def)

lemma tie_rows_rendered:
  "getTableRow stub_lib (tie_rows ! 0) scenario_schema
     = Inr ''| 4     | str                 | 20.10 |''"
  "getTableRow stub_lib (tie_rows ! 1) scenario_schema
     = Inr ''| 4     | xxxx                | 20.10 |''"
proof -
  show "getTableRow stub_lib (tie_rows ! 0) scenario_schema
     = Inr ''| 4     | str                 | 20.10 |''"
    by (simp add: tie_rows_def getTableRow_def scenario_cells scenario_fill
        DefaultDelimiter_def)
  have pad: "pad ''xxxx'' 20 = ''xxxx                ''"
    by (simp add: pad_def int64_id emptyString_def spaces_simps decolorize_plain ESC_def)
  have cells: "formatCells stub_lib [GInt 4, GString ''xxxx'', GFloat float_20_1]
      scenario_schema 0 [] 1
     = Inr ([['' 4     ''], ['' xxxx                ''], ['' 20.10 '']], 1)"
    by (simp add: scenario_schema_def formatCell_def TypeInt_def TypeString_def TypeFloat_def
        scenario_int_cell pad scenario_float_cell newline_def)
  have fill: "fillCell 1 ['' xxxx                ''] = ['' xxxx                '']"
    by (simp add: fillCell_def decolorize_plain ESC_def sprintf_left_s_def fmt_num_ok_def
        RuneCountInString.simps spaces_simps)
  show "getTableRow stub_lib (tie_rows ! 1) scenario_schema
     = Inr ''| 4     | xxxx                | 20.10 |''"
    by (simp add: tie_rows_def getTableRow_def cells scenario_fill fill DefaultDelimiter_def)
qed

lemma tie_records_folded:
  "foldedWidth tie_records = 14"
  "foldedTable tie_records
     = concat (map (\<lambda>l. l @ [newline])
         [''+---------------+'',
         ''| Values        |'',
         ''+---------------+'',
         ''| - id: 4       |'',
         ''|   label: str  |'',
         ''|               |'',
         ''| - id: 4       |'',
         ''|   label: xxxx |'',
         ''|               |'',
         ''+---------------+''])"
  "\<forall>c \<in> set tie_records. plainText c"
proof -
  show w: "foldedWidth tie_records = 14"
    by (simp add: foldedWidth_def tie_records_def decolorize_plain ESC_def newline_def)
  show "foldedTable tie_records
     = concat (map (\<lambda>l. l @ [newline])
         [''+---------------+'',
         ''| Values        |'',
         ''+---------------+'',
         ''| - id: 4       |'',
         ''|   label: str  |'',
         ''|               |'',
         ''| - id: 4       |'',
         ''|   label: xxxx |'',
         ''|               |'',
         ''+---------------+''])"
    unfolding foldedTable_def w
    by (simp add: tie_records_def bordered_def boxedLine_def spaces_simps replicate_numeral
        newline_def)
  show "\<forall>c \<in> set tie_records. plainText c"
    by (simp add: tie_records_def plainText_def ESC_def newline_def)
qed

lemma list2: "length xs = 2 \<Longrightarrow> xs ! 0 = a \<Longrightarrow> xs ! 1 = b \<Longrightarrow> xs = [a, b]"
  by (cases xs; cases "tl xs") auto

theorem C1_fold_or_layout_witness:
  "getRowSize stub_lib tie_rows scenario_schema = Inr 9 \<and>
   RenderTableFoldable stub_lib \<lparr>Data = tie_rows, Schema = scenario_schema\<rparr> ''test'' [] [] 8 =
     Inr (concat (map (\<lambda>l. l @ [newline])
            [''+---------------+'',
             ''| Values        |'',
             ''+---------------+'',
             ''| - id: 4       |'',
             ''|   label: str  |'',
             ''|               |'',
             ''| - id: 4       |'',
             ''|   label: xxxx |'',
             ''|               |'',
             ''+---------------+'',
             ''Total: 2 test'',
             '''']),
          \<lparr>Data = tie_rows, Schema = scenario_schema\<rparr>) \<and>
   RenderTableFoldable stub_lib \<lparr>Data = tie_rows, Schema = scenario_schema\<rparr>
       ''test'' ''Rows'' [] 9 =
     Inr (concat (map (\<lambda>l. l @ [newline])
            [''Rows'',
             ''+-------+---------------------+-------+'',
             ''| ID    | LABEL               | INST. |'',
             ''+-------+---------------------+-------+'',
             ''| 4     | str                 | 20.10 |'',
             ''| 4     | xxxx                | 20.10 |'',
             ''+-------+---------------------+-------+'',
             ''Total: 2 test'',
             '''']),
          \<lparr>Data = tie_rows, Schema = scenario_schema\<rparr>)"
proof (intro conjI)
  show "getRowSize stub_lib tie_rows scenario_schema = Inr 9"
    by (rule tie_rows_size)
  let ?t = "\<lparr>Data = tie_rows, Schema = scenario_schema\<rparr>"
  have ne: "Data ?t \<noteq> []" by (simp add: tie_rows_def)
  have two: "length tie_rows = 2" by (simp add: tie_rows_def)
  have rows: "row = tie_rows ! 0 \<or> row = tie_rows ! 1" if "row \<in> set tie_rows" for row
    using that by (auto simp: tie_rows_def)
  have l0: "(0::nat) < 2" and l1: "(1::nat) < 2" by simp_all
  have foot: "''Total: '' @ show_int (int (length (Data ?t))) @ '' '' @ ''test''
      @ [newline, newline] = ''Total: 2 test'' @ [newline, newline]"
    by (simp add: two show_int_digit digit_char_def)
  show "RenderTableFoldable stub_lib ?t ''test'' [] [] 8 =
     Inr (concat (map (\<lambda>l. l @ [newline])
            [''+---------------+'',
             ''| Values        |'',
             ''+---------------+'',
             ''| - id: 4       |'',
             ''|   label: str  |'',
             ''|               |'',
             ''| - id: 4       |'',
             ''|   label: xxxx |'',
             ''|               |'',
             ''+---------------+'',
             ''Total: 2 test'',
             '''']),
          ?t)"
  proof -
    from C1_fold_or_layout [OF ne tie_rows_adjust refl refl, of 8 "''test''" "[]"]
    have "(\<exists>e. \<exists>row \<in> set tie_rows.
              getTableAsYAMLString stub_lib [row] scenario_schema = Inl e) \<or>
          (\<exists>cells. length cells = 2 \<and>
             (\<forall>k < 2. getTableAsYAMLString stub_lib [tie_rows ! k] scenario_schema
                = Inr (cells ! k)) \<and>
             ((\<forall>c \<in> set cells. plainText c) \<and> foldedWidth cells \<le> 10000000 \<longrightarrow>
                RenderTableFoldable stub_lib ?t ''test'' [] [] 8 =
                  Inr (foldedTable cells @ ''Total: 2 test'' @ [newline, newline], ?t)))"
      unfolding foot by (simp add: tie_rows_size two) blast
    moreover have "getTableAsYAMLString stub_lib [row] scenario_schema \<noteq> Inl e"
      if "row \<in> set tie_rows" for row e
      using rows [OF that] tie_rows_yaml by auto
    ultimately obtain cells where c: "length cells = 2"
      "\<forall>k < 2. getTableAsYAMLString stub_lib [tie_rows ! k] scenario_schema = Inr (cells ! k)"
      and out: "(\<forall>c \<in> set cells. plainText c) \<and> foldedWidth cells \<le> 10000000 \<longrightarrow>
                RenderTableFoldable stub_lib ?t ''test'' [] [] 8 =
                  Inr (foldedTable cells @ ''Total: 2 test'' @ [newline, newline], ?t)"
      by blast
    have "cells ! 0 = tie_records ! 0" "cells ! 1 = tie_records ! 1"
      using c(2) [rule_format, OF l0, unfolded tie_rows_yaml]
        c(2) [rule_format, OF l1, unfolded tie_rows_yaml]
      by simp_all
    moreover have "length tie_records = 2" by (simp add: tie_records_def)
    ultimately have cells: "cells = tie_records"
      using c(1) by (intro nth_equalityI) (auto simp: less_Suc_eq numeral_2_eq_2)
    from out tie_records_folded(1,3)
    have "RenderTableFoldable stub_lib ?t ''test'' [] [] 8 =
        Inr (foldedTable tie_records @ ''Total: 2 test'' @ [newline, newline], ?t)"
      unfolding cells by simp
    then show ?thesis
      unfolding tie_records_folded(2) by simp
  qed
  show "RenderTableFoldable stub_lib ?t ''test'' ''Rows'' [] 9 =
     Inr (concat (map (\<lambda>l. l @ [newline])
            [''Rows'',
             ''+-------+---------------------+-------+'',
             ''| ID    | LABEL               | INST. |'',
             ''+-------+---------------------+-------+'',
             ''| 4     | str                 | 20.10 |'',
             ''| 4     | xxxx                | 20.10 |'',
             ''+-------+---------------------+-------+'',
             ''Total: 2 test'',
             '''']),
          ?t)"
  proof -
    have names: "\<forall>f \<in> set (Schema ?t). plainLine (FieldName f) \<and> FieldSize f \<le> 10000000"
      by (simp add: scenario_schema_def plainLine_def plainText_def ESC_def newline_def)
    from C1_fold_or_layout [OF ne tie_rows_adjust refl refl, of 9 "''test''" "''Rows''"]
    obtain rs where len: "length rs = 2"
      and nth: "\<forall>k < 2. getTableRow stub_lib (tie_rows ! k) scenario_schema = Inr (rs ! k)"
      and out: "RenderTableFoldable stub_lib ?t ''test'' ''Rows'' [] 9 =
          Inr (''Rows'' @ [newline]
               @ bordered (borderLine scenario_schema) (headerLine scenario_schema) rs
               @ ''Total: 2 test'' @ [newline, newline], ?t)"
      unfolding foot using names by (simp add: tie_rows_size two) blast
    have "rs ! 0 = ''| 4     | str                 | 20.10 |''"
      "rs ! 1 = ''| 4     | xxxx                | 20.10 |''"
      using nth [rule_format, OF l0, unfolded tie_rows_rendered]
        nth [rule_format, OF l1, unfolded tie_rows_rendered]
      by simp_all
    with len have rs: "rs = [''| 4     | str                 | 20.10 |'',
        ''| 4     | xxxx                | 20.10 |'']"
      by (rule list2)
    have b: "borderLine scenario_schema = ''+-------+---------------------+-------+''"
      by (simp add: borderLine_def scenario_schema_def replicate_numeral)
    have u: "[0 ..< 3] = [0, 1, 2::nat]" by (simp add: upt_rec)
    have h: "headerLine scenario_schema = ''| ID    | LABEL               | INST. |''"
      by (simp add: headerLine_def cellsLine_def scenario_schema_def u spaces_simps
          DefaultDelimiter_def)
    show ?thesis
      unfolding out rs b h by (simp add: bordered_def)
  qed
qed

end
